theory Spec2Isabelle
  imports Complex_Main
begin

section \<open>Strings\<close>

text \<open>
  Python strings are modelled as Isabelle strings (lists of 8-bit characters) read as
  ASCII text: the character classes below are those of Python 3 on code points below
  128. Code points above 127 are outside the model. Python floats are modelled as
  the real numbers they approximate; rounding is not modelled.
\<close>

definition code :: "char \<Rightarrow> int" where
  "code c = of_char c"

text \<open>\<^verbatim>\<open>str.isspace\<close>, which is also \<^verbatim>\<open>\s\<close> of \<^verbatim>\<open>re\<close> on
  \<^verbatim>\<open>str\<close> patterns: tab, LF, VT, FF, CR, the separators 28 to 31, and space.\<close>

definition is_space :: "char \<Rightarrow> bool" where
  "is_space c = ((9 \<le> code c \<and> code c \<le> 13) \<or> (28 \<le> code c \<and> code c \<le> 32))"

definition is_upper :: "char \<Rightarrow> bool" where
  "is_upper c = (65 \<le> code c \<and> code c \<le> 90)"

definition is_lower :: "char \<Rightarrow> bool" where
  "is_lower c = (97 \<le> code c \<and> code c \<le> 122)"

definition is_alpha :: "char \<Rightarrow> bool" where
  "is_alpha c = (is_upper c \<or> is_lower c)"

definition is_digit :: "char \<Rightarrow> bool" where
  "is_digit c = (48 \<le> code c \<and> code c \<le> 57)"

text \<open>\<^verbatim>\<open>\w\<close>: letters, digits and the underscore.\<close>

definition is_word :: "char \<Rightarrow> bool" where
  "is_word c = (is_alpha c \<or> is_digit c \<or> c = CHR ''_'')"

definition lower_char :: "char \<Rightarrow> char" where
  "lower_char c = (if is_upper c then char_of (code c + 32) else c)"

text \<open>\<^verbatim>\<open>str.lower\<close>.\<close>

definition lower :: "string \<Rightarrow> string" where
  "lower s = map lower_char s"

text \<open>\<^verbatim>\<open>str.split()\<close> without arguments: the maximal runs of non-whitespace characters.
  The first argument is the run being read, reversed.\<close>

fun split_acc :: "string \<Rightarrow> string \<Rightarrow> string list" where
  "split_acc cur [] = (if cur = [] then [] else [rev cur])"
| "split_acc cur (c # cs) =
     (if is_space c then (if cur = [] then split_acc [] cs else rev cur # split_acc [] cs)
      else split_acc (c # cur) cs)"

definition split_ws :: "string \<Rightarrow> string list" where
  "split_ws s = split_acc [] s"

section \<open>Tokenizer\<close>

definition STOP :: "string list" where
  "STOP = [
    ''the'', ''and'', ''for'', ''that'', ''with'', ''this'', ''from'', ''into'', ''your'', ''you'',
    ''are'', ''was'', ''were'', ''have'', ''has'', ''had'', ''but'', ''not'',
    ''any'', ''can'', ''could'', ''should'', ''would'', ''will'', ''shall'', ''about'', ''also'',
    ''then'', ''than'', ''when'', ''what'', ''which'', ''how'', ''why'',
    ''use'', ''used'', ''using'', ''via'', ''into'', ''out'', ''over'', ''under'', ''on'', ''in'',
    ''of'', ''to'', ''a'', ''an'', ''is'', ''it'', ''be'', ''as'', ''at'', ''by'',
    ''or'', ''if'', ''we'', ''our'', ''their'', ''they'', ''them'', ''he'', ''she'', ''his'',
    ''her'', ''its'']"

text \<open>\<^verbatim>\<open>re.sub(r"[^\w\s-]", " ", s)\<close>\<close>

definition strip_punct :: "string \<Rightarrow> string" where
  "strip_punct s = map (\<lambda>c. if is_word c \<or> is_space c \<or> c = CHR ''-'' then c else CHR '' '') s"

definition tokenize :: "string \<Rightarrow> string list" where
  "tokenize s = filter (\<lambda>w. length w > 2 \<and> w \<notin> set STOP) (split_ws (strip_punct (lower s)))"

section \<open>Errors\<close>

text \<open>The exceptions the modelled code can raise.\<close>

datatype py_error = IndexError | ZeroDivisionError | ValueError

text \<open>Sequencing of fallible computations: the first exception raised is the result.\<close>

definition bind :: "py_error + 'a \<Rightarrow> ('a \<Rightarrow> py_error + 'b) \<Rightarrow> py_error + 'b" where
  "bind m f = (case m of Inl e \<Rightarrow> Inl e | Inr v \<Rightarrow> f v)"

text \<open>\<^verbatim>\<open>a / b\<close> on floats.\<close>

definition py_truediv :: "real \<Rightarrow> real \<Rightarrow> py_error + real" where
  "py_truediv a b = (if b = 0 then Inl ZeroDivisionError else Inr (a / b))"

text \<open>\<^verbatim>\<open>math.log\<close>.\<close>

definition py_log :: "real \<Rightarrow> py_error + real" where
  "py_log x = (if x \<le> 0 then Inl ValueError else Inr (ln x))"

text \<open>\<^verbatim>\<open>xs[i]\<close> on a list: indices \<open>-len(xs) .. -1\<close> address the list from its end,
  anything outside \<open>-len(xs) .. len(xs) - 1\<close> raises.\<close>

definition py_index :: "'a list \<Rightarrow> int \<Rightarrow> py_error + 'a" where
  "py_index xs i =
     (if 0 \<le> i \<and> i < int (length xs) then Inr (xs ! nat i)
      else if i < 0 \<and> - int (length xs) \<le> i then Inr (xs ! nat (int (length xs) + i))
      else Inl IndexError)"

section \<open>BM25\<close>

text \<open>The fields of a \<^verbatim>\<open>BM25\<close> object. \<open>bm_df\<close> is the \<^verbatim>\<open>Counter\<close>, read
  with \<^verbatim>\<open>df.get(term, 0)\<close>.\<close>

record bm25 =
  bm_k1 :: real
  bm_b :: real
  bm_docs_tokens :: "string list list"
  bm_N :: nat
  bm_df :: "string \<Rightarrow> nat"
  bm_doc_len :: "nat list"
  bm_avgdl :: real

text \<open>\<^verbatim>\<open>BM25.__init__\<close>; the callers use the defaults \<open>k1 = 1.5\<close>, \<open>b = 0.75\<close>.\<close>

definition BM25_init :: "string list list \<Rightarrow> real \<Rightarrow> real \<Rightarrow> bm25" where
  "BM25_init docs k1 b =
     \<lparr> bm_k1 = k1, bm_b = b, bm_docs_tokens = docs, bm_N = length docs,
       bm_df = (\<lambda>t. length (filter (\<lambda>d. t \<in> set d) docs)),
       bm_doc_len = map length docs,
       bm_avgdl = (if length docs \<noteq> 0
                   then real (sum_list (map length docs)) / real (length docs) else 0) \<rparr>"

definition BM25 :: "string list list \<Rightarrow> bm25" where
  "BM25 docs = BM25_init docs (3/2) (3/4)"

text \<open>\<^verbatim>\<open>BM25.idf\<close>\<close>

definition idf :: "bm25 \<Rightarrow> string \<Rightarrow> py_error + real" where
  "idf bm t =
     (let n_qi = bm_df bm t in
      if bm_N bm \<noteq> 0
      then bind (py_truediv (real (bm_N bm) - real n_qi + 1/2) (real n_qi + 1/2))
             (\<lambda>r. py_log (1 + r))
      else Inr 0)"

text \<open>The body of the loop of \<^verbatim>\<open>BM25.score\<close> over the query tokens; \<open>acc\<close> is the
  running \<^verbatim>\<open>score\<close>, \<open>doc\<close> the document whose \<^verbatim>\<open>Counter\<close> is \<^verbatim>\<open>tf\<close>.\<close>

fun score_loop :: "bm25 \<Rightarrow> nat \<Rightarrow> string list \<Rightarrow> real \<Rightarrow> string list \<Rightarrow> py_error + real" where
  "score_loop bm dl doc acc [] = Inr acc"
| "score_loop bm dl doc acc (t # ts) =
     (if t \<notin> set doc then score_loop bm dl doc acc ts
      else
        bind (idf bm t) (\<lambda>i.
        let f = real (count_list doc t) in
        bind (py_truediv (bm_b bm * real dl) (if bm_avgdl bm \<noteq> 0 then bm_avgdl bm else 1)) (\<lambda>r.
        let denom = f + bm_k1 bm * (1 - bm_b bm + r) in
        bind (py_truediv (f * (bm_k1 bm + 1)) denom) (\<lambda>x.
        score_loop bm dl doc (acc + i * x) ts))))"

text \<open>\<^verbatim>\<open>BM25.score\<close>\<close>

definition score :: "bm25 \<Rightarrow> string list \<Rightarrow> int \<Rightarrow> py_error + real" where
  "score bm q_tokens doc_idx =
     bind (py_index (bm_doc_len bm) doc_idx) (\<lambda>l.
     let dl = (if l \<noteq> 0 then l else 1) in
     bind (py_index (bm_docs_tokens bm) doc_idx) (\<lambda>doc.
     score_loop bm dl doc 0 q_tokens))"

text \<open>A two-document corpus used to instantiate the BM25 properties.\<close>

definition corpus_ex :: "string list list" where
  "corpus_ex = [[''ora-12154'', ''error''], [''error'', ''listener'']]"

section \<open>More string operations\<close>

definition NL :: char where
  "NL = CHR 0x0A"

text \<open>\<^verbatim>\<open>str.strip()\<close>, \<^verbatim>\<open>str.rstrip()\<close> and \<^verbatim>\<open>str.lstrip()\<close> without arguments.\<close>

definition lstrip :: "string \<Rightarrow> string" where
  "lstrip s = dropWhile is_space s"

definition rstrip :: "string \<Rightarrow> string" where
  "rstrip s = rev (dropWhile is_space (rev s))"

definition strip :: "string \<Rightarrow> string" where
  "strip s = lstrip (rstrip s)"


text \<open>\<^verbatim>\<open>s.startswith(p)\<close>\<close>

fun startswith :: "string \<Rightarrow> string \<Rightarrow> bool" where
  "startswith s [] = True"
| "startswith [] (p # ps) = False"
| "startswith (c # cs) (p # ps) = (c = p \<and> startswith cs ps)"

text \<open>\<^verbatim>\<open>sub in s\<close> on strings.\<close>

fun py_in :: "string \<Rightarrow> string \<Rightarrow> bool" where
  "py_in sub [] = (sub = [])"
| "py_in sub (c # cs) = (startswith (c # cs) sub \<or> py_in sub cs)"

text \<open>\<^verbatim>\<open>sep.join(xs)\<close>\<close>

fun join :: "string \<Rightarrow> string list \<Rightarrow> string" where
  "join sep [] = []"
| "join sep [x] = x"
| "join sep (x # y # ys) = x @ sep @ join sep (y # ys)"

text \<open>\<^verbatim>\<open>str.splitlines()\<close>: the line boundaries below 128 are LF, VT, FF, CR, CR LF and
  the separators 28 to 30. The first argument is the line being read, reversed.\<close>

definition is_linebreak :: "char \<Rightarrow> bool" where
  "is_linebreak c = ((10 \<le> code c \<and> code c \<le> 13) \<or> (28 \<le> code c \<and> code c \<le> 30))"

fun splitlines_acc :: "string \<Rightarrow> string \<Rightarrow> string list" where
  "splitlines_acc cur [] = (if cur = [] then [] else [rev cur])"
| "splitlines_acc cur [c] =
     (if is_linebreak c then [rev cur] else [rev (c # cur)])"
| "splitlines_acc cur (c # d # cs) =
     (if c = CHR 0x0D \<and> d = NL then rev cur # splitlines_acc [] cs
      else if is_linebreak c then rev cur # splitlines_acc [] (d # cs)
      else splitlines_acc (c # cur) (d # cs))"

definition splitlines :: "string \<Rightarrow> string list" where
  "splitlines s = splitlines_acc [] s"

section \<open>Regular expressions\<close>

text \<open>
  The patterns of the source are values of \<open>rx\<close>, matched the way \<^verbatim>\<open>re\<close> matches them:
  by backtracking, alternatives left to right, repetitions greedy. A matcher state is
  the character before the position (none at the start of the string) and the rest of
  the string; \<open>rx_m r st\<close> lists the states after every way of matching \<open>r\<close> at \<open>st\<close>, in
  the order backtracking tries them, so the head is the match \<^verbatim>\<open>re\<close> reports.
  A repeated pattern must consume a character in each round, which every repeated
  pattern of the source does.
\<close>

datatype rx =
    Cls "char \<Rightarrow> bool"
  | Eps
  | Seq rx rx
  | Alt rx rx
  | Rep rx nat "nat option"
  | WordB
  | Bol
  | Eol
  | Ahead rx
  | Behind "char \<Rightarrow> bool"

type_synonym rx_state = "char option \<times> string"

fun dec_hi :: "nat option \<Rightarrow> nat option" where
  "dec_hi None = None"
| "dec_hi (Some n) = Some (n - 1)"

text \<open>Greedy repetition of the one-round matcher \<open>f\<close>, between \<open>lo\<close> and \<open>hi\<close> rounds; the
  fourth argument bounds the number of rounds by the length of the text.\<close>

fun rep_aux :: "(rx_state \<Rightarrow> rx_state list) \<Rightarrow> nat \<Rightarrow> nat option \<Rightarrow> nat \<Rightarrow> rx_state \<Rightarrow> rx_state list" where
  "rep_aux f lo hi 0 st = (if lo = 0 then [st] else [])"
| "rep_aux f lo hi (Suc n) st =
     (if hi = Some 0 then []
      else concat (map (rep_aux f (lo - 1) (dec_hi hi) n)
             (filter (\<lambda>st'. length (snd st') < length (snd st)) (f st))))
     @ (if lo = 0 then [st] else [])"

definition word_before :: "rx_state \<Rightarrow> bool" where
  "word_before st = (case fst st of None \<Rightarrow> False | Some c \<Rightarrow> is_word c)"

definition word_after :: "rx_state \<Rightarrow> bool" where
  "word_after st = (case snd st of [] \<Rightarrow> False | c # cs \<Rightarrow> is_word c)"

primrec rx_m :: "rx \<Rightarrow> rx_state \<Rightarrow> rx_state list" where
  "rx_m (Cls P) st = (case snd st of [] \<Rightarrow> [] | c # cs \<Rightarrow> if P c then [(Some c, cs)] else [])"
| "rx_m Eps st = [st]"
| "rx_m (Seq a b) st = concat (map (rx_m b) (rx_m a st))"
| "rx_m (Alt a b) st = rx_m a st @ rx_m b st"
| "rx_m (Rep r lo hi) st = rep_aux (rx_m r) lo hi (length (snd st)) st"
| "rx_m WordB st = (if word_before st \<noteq> word_after st then [st] else [])"
| "rx_m Bol st = (if fst st = None then [st] else [])"
| "rx_m Eol st = (if snd st = [] \<or> snd st = [NL] then [st] else [])"
| "rx_m (Ahead r) st = (if rx_m r st = [] then [] else [st])"
| "rx_m (Behind P) st = (case fst st of None \<Rightarrow> [] | Some c \<Rightarrow> if P c then [st] else [])"

text \<open>The text matched between a state and a later one.\<close>

definition consumed :: "rx_state \<Rightarrow> rx_state \<Rightarrow> string" where
  "consumed st st' = take (length (snd st) - length (snd st')) (snd st)"

text \<open>\<^verbatim>\<open>pattern.match(s)\<close>: the text matched at the start of \<open>s\<close>, if any.\<close>

definition re_match :: "rx \<Rightarrow> string \<Rightarrow> string option" where
  "re_match r s = (case rx_m r (None, s) of [] \<Rightarrow> None | st' # _ \<Rightarrow> Some (consumed (None, s) st'))"

text \<open>\<^verbatim>\<open>pattern.search(s)\<close>: the leftmost match, as the text of \<^verbatim>\<open>m.group(0)\<close>.\<close>

fun search_from :: "rx \<Rightarrow> char option \<Rightarrow> string \<Rightarrow> string option" where
  "search_from r p [] = (case rx_m r (p, []) of [] \<Rightarrow> None | st' # _ \<Rightarrow> Some [])"
| "search_from r p (c # cs) =
     (case rx_m r (p, c # cs) of
        [] \<Rightarrow> search_from r (Some c) cs
      | st' # _ \<Rightarrow> Some (consumed (p, c # cs) st'))"

definition re_search :: "rx \<Rightarrow> string \<Rightarrow> string option" where
  "re_search r s = search_from r None s"

definition re_found :: "rx \<Rightarrow> string \<Rightarrow> bool" where
  "re_found r s = (re_search r s \<noteq> None)"

text \<open>The successive non-overlapping matches of a pattern whose matches are never empty:
  each with the unmatched text before it, and the unmatched text after the last. The
  first argument bounds the recursion by the length of the text; \<open>pre\<close> is the unmatched
  text read so far, reversed.\<close>

fun scan :: "nat \<Rightarrow> rx \<Rightarrow> char option \<Rightarrow> string \<Rightarrow> string \<Rightarrow> (string \<times> string) list \<times> string" where
  "scan 0 r p pre s = ([], rev pre @ s)"
| "scan (Suc n) r p pre [] = ([], rev pre)"
| "scan (Suc n) r p pre (c # cs) =
     (case rx_m r (p, c # cs) of
        [] \<Rightarrow> scan n r (Some c) (c # pre) cs
      | st' # _ \<Rightarrow>
          (let mt = consumed (p, c # cs) st' in
           if mt = [] then scan n r (Some c) (c # pre) cs
           else (let (ms, rest) = scan n r (fst st') [] (snd st') in ((rev pre, mt) # ms, rest))))"

definition re_scan :: "rx \<Rightarrow> string \<Rightarrow> (string \<times> string) list \<times> string" where
  "re_scan r s = scan (length s) r None [] s"

text \<open>\<^verbatim>\<open>pattern.findall(s)\<close> for a pattern without groups, \<^verbatim>\<open>pattern.split(s)\<close>, and
  \<^verbatim>\<open>pattern.sub(repl, s)\<close> with the replacement computed from the matched text.\<close>

definition re_findall :: "rx \<Rightarrow> string \<Rightarrow> string list" where
  "re_findall r s = map snd (fst (re_scan r s))"

definition re_split :: "rx \<Rightarrow> string \<Rightarrow> string list" where
  "re_split r s = map fst (fst (re_scan r s)) @ [snd (re_scan r s)]"

definition re_sub :: "rx \<Rightarrow> (string \<Rightarrow> string) \<Rightarrow> string \<Rightarrow> string" where
  "re_sub r f s = concat (map (\<lambda>(pre, mt). pre @ f mt) (fst (re_scan r s))) @ snd (re_scan r s)"

text \<open>Pattern building blocks: a literal, a literal under \<^verbatim>\<open>re.I\<close>, a choice among
  patterns, and the usual classes and quantifiers.\<close>

definition Chr :: "char \<Rightarrow> rx" where
  "Chr c = Cls (\<lambda>x. x = c)"

definition ChrI :: "char \<Rightarrow> rx" where
  "ChrI c = Cls (\<lambda>x. lower_char x = lower_char c)"

fun Lit :: "string \<Rightarrow> rx" where
  "Lit [] = Eps"
| "Lit [c] = Chr c"
| "Lit (c # cs) = Seq (Chr c) (Lit cs)"

fun LitI :: "string \<Rightarrow> rx" where
  "LitI [] = Eps"
| "LitI [c] = ChrI c"
| "LitI (c # cs) = Seq (ChrI c) (LitI cs)"

fun Alts :: "rx list \<Rightarrow> rx" where
  "Alts [] = Cls (\<lambda>x. False)"
| "Alts [r] = r"
| "Alts (r # rs) = Alt r (Alts rs)"

fun Seqs :: "rx list \<Rightarrow> rx" where
  "Seqs [] = Eps"
| "Seqs [r] = r"
| "Seqs (r # rs) = Seq r (Seqs rs)"

definition Star :: "rx \<Rightarrow> rx" where "Star r = Rep r 0 None"
definition Plus :: "rx \<Rightarrow> rx" where "Plus r = Rep r 1 None"
definition Digit :: rx where "Digit = Cls is_digit"
definition Space :: rx where "Space = Cls is_space"

section \<open>Configuration, rows and the index\<close>

text \<open>The module-level settings read from the environment. \<open>llm_enabled\<close> is
  \<^verbatim>\<open>USE_LLM and OPENAI_API_KEY\<close>.\<close>

record config =
  ROW_SCORE_MIN :: real
  PINPOINT_MAX_STEPS :: int
  MAX_SECTIONS :: int
  MAX_SOURCES_PER_ANSWER :: int
  MAX_ANSWER_CHARS :: int
  ERROR_TITLE_HINTS :: "string list"
  ERROR_PAGE_BIAS :: real
  ERROR_ROW_HARDMATCH :: bool
  STRICT_REMEDY_ONLY :: bool
  FORBIDDEN_PHRASES :: "string list"
  llm_enabled :: bool

text \<open>The defaults of the source, with no generative formatter configured.\<close>

definition default_config :: config where
  "default_config =
     \<lparr> ROW_SCORE_MIN = 92/100, PINPOINT_MAX_STEPS = 5, MAX_SECTIONS = 1,
       MAX_SOURCES_PER_ANSWER = 1, MAX_ANSWER_CHARS = -1,
       ERROR_TITLE_HINTS = [''error'', ''errors'', ''solution'', ''solutions'', ''catalog''],
       ERROR_PAGE_BIAS = 18/100, ERROR_ROW_HARDMATCH = True, STRICT_REMEDY_ONLY = True,
       FORBIDDEN_PHRASES = [''contact support'', ''contact administrator'',
         ''system administrator'', ''open a ticket'', ''reach out to support'',
         ''consult support'', ''consult administrator''],
       llm_enabled = False \<rparr>"

text \<open>A row of an error catalog table, as \<^verbatim>\<open>extract_table_rows_from_html\<close> builds it; a
  key that is missing from the dictionary reads as the empty string, as
  \<^verbatim>\<open>row.get(key) or ""\<close> does.\<close>

record row =
  row_error :: string
  row_cause :: string
  row_remedy :: string
  row_suggestions :: string
  row_raw :: "(string \<times> string) list"
  row_text :: string

text \<open>An entry of \<^verbatim>\<open>KB_ROWS\<close> and an entry of \<^verbatim>\<open>KB_SECTIONS\<close>.\<close>

record kb_row =
  item_title :: string
  item_url :: string
  item_row :: row

record kb_section =
  sec_title :: string
  sec_url :: string
  sec_text :: string
  sec_tokens :: "string list"

record kb_page =
  page_title :: string
  page_url :: string
  page_text :: string
  page_html :: string

text \<open>The global index that \<^verbatim>\<open>preload_knowledge\<close> builds.\<close>

record kb_state =
  KB_PAGES :: "kb_page list"
  KB_SECTIONS :: "kb_section list"
  SECTION_BM25 :: "bm25 option"
  KB_ROWS :: "kb_row list"
  ROW_TOKENS :: "string list list"
  ROW_BM25 :: "bm25 option"

text \<open>What \<^verbatim>\<open>preload_knowledge\<close> establishes when it has run to its end: one token list
  per row and per section, and each BM25 index built over these token lists, or absent
  when there is no row or no section.\<close>

definition kb_built :: "kb_state \<Rightarrow> bool" where
  "kb_built st =
     (length (ROW_TOKENS st) = length (KB_ROWS st) \<and>
      ROW_BM25 st = (if KB_ROWS st = [] then None else Some (BM25 (ROW_TOKENS st))) \<and>
      SECTION_BM25 st =
        (if KB_SECTIONS st = [] then None else Some (BM25 (map sec_tokens (KB_SECTIONS st)))))"

text \<open>The two functions of the \<^verbatim>\<open>rapidfuzz.fuzz\<close> library that the scorer calls. The
  library is not part of the repository; its functions are parameters of the model,
  and \<open>fuzz_ok\<close> is the range the library documents, 0 to 100.\<close>

record fuzz =
  partial_ratio :: "string \<Rightarrow> string \<Rightarrow> real"
  token_set_ratio :: "string \<Rightarrow> string \<Rightarrow> real"

definition fuzz_ok :: "fuzz \<Rightarrow> bool" where
  "fuzz_ok fz =
     (\<forall>a b. 0 \<le> partial_ratio fz a b \<and> partial_ratio fz a b \<le> 100 \<and>
            0 \<le> token_set_ratio fz a b \<and> token_set_ratio fz a b \<le> 100)"

text \<open>A stand-in for the library that rates every pair of strings as identical.\<close>

definition fuzz_all_equal :: fuzz where
  "fuzz_all_equal = \<lparr> partial_ratio = (\<lambda>a b. 100), token_set_ratio = (\<lambda>a b. 100) \<rparr>"

text \<open>A stand-in for the library that rates every pair of strings as unrelated.\<close>

definition fuzz_all_distinct :: fuzz where
  "fuzz_all_distinct = \<lparr> partial_ratio = (\<lambda>a b. 0), token_set_ratio = (\<lambda>a b. 0) \<rparr>"

section \<open>Row scorer\<close>

text \<open>\<^verbatim>\<open>any(h in s for h in hs)\<close>\<close>

definition any_in :: "string list \<Rightarrow> string \<Rightarrow> bool" where
  "any_in hs s = list_ex (\<lambda>h. py_in h s) hs"

definition UI_VISIBILITY_RE :: rx where
  "UI_VISIBILITY_RE =
     Seqs [WordB,
       Alts [LitI ''option'', LitI ''options'', LitI ''menu'', LitI ''button'', LitI ''tab'',
             LitI ''checkbox'',
             Seqs [LitI ''not'', Plus Space,
                   Alts [LitI ''present'', LitI ''visible'', LitI ''found'']],
             LitI ''missing'', LitI ''disabled'', LitI ''hidden''],
       WordB]"

definition alnum_i :: "char \<Rightarrow> bool" where
  "alnum_i c = (is_digit c \<or> is_alpha c)"

definition ERROR_CODE_PAT :: rx where
  "ERROR_CODE_PAT =
     Alts [
       Seqs [WordB, LitI ''ORA-'', Rep Digit 4 (Some 5), WordB],
       Seqs [WordB, LitI ''SQLSTATE'', Star Space, Rep (Cls alnum_i) 5 (Some 5), WordB],
       Seqs [WordB, LitI ''HTTP'', Star Space, Cls (\<lambda>c. c \<in> set ''12345''),
             Rep Digit 2 (Some 2), WordB],
       Seqs [WordB, Rep (Cls is_alpha) 2 (Some 5), Chr CHR ''-'', Rep Digit 3 (Some 5), WordB]]"

definition GENERIC_WORDS :: "string list" where
  "GENERIC_WORDS = [''introduction'', ''overview'', ''general'', ''faq'', ''guide'', ''tips'',
     ''troubleshooting'', ''how to'', ''index'', ''contents'']"

text \<open>The patterns of \<^verbatim>\<open>_extract_query_spans\<close>: a quoted span, a code-like token, and the
  codes looked for in such a token (case-sensitive).\<close>

definition QUOTED_RE :: rx where
  "QUOTED_RE = Seqs [Chr CHR 0x22, Plus (Cls (\<lambda>c. c \<noteq> CHR 0x22)), Chr CHR 0x22]"

definition codey_char :: "char \<Rightarrow> bool" where
  "codey_char c = (is_alpha c \<or> is_digit c \<or> c \<in> set ''_./:-'')"

definition CODEY_RE :: rx where
  "CODEY_RE = Seqs [WordB, Rep (Cls codey_char) 3 None, WordB]"

definition SPAN_CODE_RE :: rx where
  "SPAN_CODE_RE =
     Alts [
       Seqs [Rep (Cls is_upper) 2 None, Chr CHR ''-'', Rep Digit 2 None],
       Seqs [Lit ''ORA-'', Rep Digit 4 (Some 5)],
       Lit ''SQLSTATE'',
       Seqs [Lit ''HTTP'', Star Space, Cls (\<lambda>c. c \<in> set ''12345''), Rep Digit 2 (Some 2)]]"

text \<open>\<^verbatim>\<open>list(dict.fromkeys(xs))\<close>: the first occurrence of each element, in order.\<close>

definition dedup :: "string list \<Rightarrow> string list" where
  "dedup xs = rev (remdups (rev xs))"

definition extract_query_spans :: "string \<Rightarrow> string list" where
  "extract_query_spans q =
     (let quoted = map (\<lambda>mt. strip (butlast (tl mt))) (re_findall QUOTED_RE q);
          spans1 = filter (\<lambda>m. length m \<ge> 3) quoted;
          codey = re_findall CODEY_RE q;
          spans2 = filter (\<lambda>t. re_found SPAN_CODE_RE t) codey
      in dedup (spans1 @ spans2))"

definition title_generic_penalty :: "string \<Rightarrow> real" where
  "title_generic_penalty title = (if any_in GENERIC_WORDS (lower title) then 10/100 else 0)"

text \<open>The hard-match score, the weighted fuzzy blend and the additive terms of
  \<^verbatim>\<open>score_row_against_query\<close>, in the order the source computes them.\<close>

definition hard_score :: "config \<Rightarrow> row \<Rightarrow> string \<Rightarrow> real" where
  "hard_score cfg r query =
     (let q = strip query; ql = lower q; err = row_error r; txt = row_text r in
      if ERROR_ROW_HARDMATCH cfg then
        (if err \<noteq> [] \<and> ql \<noteq> [] \<and> (py_in ql (lower err) \<or> py_in (lower err) ql) then 1
         else (case re_search ERROR_CODE_PAT q of
                 None \<Rightarrow> 0
               | Some g \<Rightarrow>
                   if py_in (lower g) (lower err) \<or> py_in (lower g) (lower txt)
                   then 95/100 else 0))
      else 0)"

definition fuzzy_base :: "fuzz \<Rightarrow> row \<Rightarrow> string \<Rightarrow> real" where
  "fuzzy_base fz r query =
     (let ql = lower (strip query); err = row_error r; txt = row_text r;
          p_err = partial_ratio fz ql (lower err) / 100;
          t_err = token_set_ratio fz ql (lower err) / 100;
          p_txt = partial_ratio fz ql (lower txt) / 100;
          t_txt = token_set_ratio fz ql (lower txt) / 100
      in 52/100 * p_err + 20/100 * t_err + 18/100 * p_txt + 10/100 * t_txt)"

definition remedy_bias :: "row \<Rightarrow> real" where
  "remedy_bias r =
     (if row_remedy r \<noteq> [] then (if length (row_remedy r) > 120 then 8/100 + 3/100 else 8/100)
      else 0)"

definition page_bias :: "config \<Rightarrow> string \<Rightarrow> real" where
  "page_bias cfg title =
     (if title \<noteq> [] \<and> any_in (ERROR_TITLE_HINTS cfg) (lower title)
      then ERROR_PAGE_BIAS cfg else 0)"

definition ui_bias :: "row \<Rightarrow> string \<Rightarrow> real" where
  "ui_bias r query =
     (let ql = lower (strip query) in
      if re_found UI_VISIBILITY_RE ql \<and>
         (re_found UI_VISIBILITY_RE (lower (row_text r)) \<or>
          re_found UI_VISIBILITY_RE (lower (row_error r)))
      then 8/100 else 0)"

text \<open>The loop over the query spans: 0.05 for each span found in the row.\<close>

fun span_bias :: "row \<Rightarrow> string list \<Rightarrow> real" where
  "span_bias r [] = 0"
| "span_bias r (sp # sps) =
     (let s = lower sp in
      (if s \<noteq> [] \<and> (py_in s (lower (row_error r)) \<or> py_in s (lower (row_text r)))
       then 5/100 else 0) + span_bias r sps)"

definition title_sim_bias :: "fuzz \<Rightarrow> string \<Rightarrow> string \<Rightarrow> real" where
  "title_sim_bias fz query title =
     (if title \<noteq> [] then 4/100 * (partial_ratio fz (lower (strip query)) (lower title) / 100)
      else 0)"

definition score_row_against_query :: "config \<Rightarrow> fuzz \<Rightarrow> row \<Rightarrow> string \<Rightarrow> string \<Rightarrow> real" where
  "score_row_against_query cfg fz r query title =
     (let base = max (hard_score cfg r query) (fuzzy_base fz r query);
          base = base + remedy_bias r;
          base = base + page_bias cfg title;
          base = base + ui_bias r query;
          base = base + span_bias r (extract_query_spans (strip query));
          base = base + title_sim_bias fz query title;
          base = base - title_generic_penalty title
      in max 0 (min 1 base))"

section \<open>Row candidates\<close>

type_synonym candidate = "real \<times> nat \<times> kb_row"

text \<open>\<^verbatim>\<open>xs[:k]\<close>\<close>

definition py_take :: "int \<Rightarrow> 'a list \<Rightarrow> 'a list" where
  "py_take k xs = (if 0 \<le> k then take (nat k) xs else take (length xs - nat (- k)) xs)"

text \<open>The blended score of the row at index \<open>i\<close>: the body of the loop of
  \<^verbatim>\<open>get_row_candidates\<close>.\<close>

definition blended :: "config \<Rightarrow> fuzz \<Rightarrow> kb_state \<Rightarrow> string \<Rightarrow> nat \<Rightarrow> kb_row \<Rightarrow> py_error + real" where
  "blended cfg fz st q i item =
     (let title = item_title item;
          sc = score_row_against_query cfg fz (item_row item) q title
      in bind (case ROW_BM25 st of
                 None \<Rightarrow> Inr sc
               | Some bm \<Rightarrow>
                   if i < length (ROW_TOKENS st)
                   then bind (score bm (tokenize q) (int i)) (\<lambda>s. Inr (90/100 * sc + 10/100 * s))
                   else Inr sc)
           (\<lambda>sc. Inr (if title \<noteq> []
                       then sc + 5/100 * (partial_ratio fz (lower q) (lower title) / 100)
                       else sc)))"

fun cands_loop :: "config \<Rightarrow> fuzz \<Rightarrow> kb_state \<Rightarrow> string \<Rightarrow> nat \<Rightarrow> kb_row list \<Rightarrow> py_error + candidate list" where
  "cands_loop cfg fz st q i [] = Inr []"
| "cands_loop cfg fz st q i (item # items) =
     bind (blended cfg fz st q i item) (\<lambda>sc.
     bind (cands_loop cfg fz st q (Suc i) items) (\<lambda>cs. Inr ((sc, i, item) # cs)))"

text \<open>\<^verbatim>\<open>cands.sort(key=lambda x: x[0], reverse=True)\<close>: Python's sort is stable, and with
  \<^verbatim>\<open>reverse=True\<close> elements with equal keys keep their order.\<close>

definition sort_desc :: "candidate list \<Rightarrow> candidate list" where
  "sort_desc cs = sort_key (\<lambda>c. - fst c) cs"

definition get_row_candidates :: "config \<Rightarrow> fuzz \<Rightarrow> kb_state \<Rightarrow> string \<Rightarrow> int \<Rightarrow> py_error + candidate list" where
  "get_row_candidates cfg fz st query top_k =
     bind (cands_loop cfg fz st query 0 (KB_ROWS st)) (\<lambda>cands.
     Inr (py_take top_k (sort_desc cands)))"

text \<open>The order of the returned candidates: by descending score, and among equal scores
  by ascending index into \<^verbatim>\<open>KB_ROWS\<close>.\<close>

definition cand_before :: "candidate \<Rightarrow> candidate \<Rightarrow> bool" where
  "cand_before c d = (fst c > fst d \<or> (fst c = fst d \<and> fst (snd c) < fst (snd d)))"

section \<open>Example data\<close>

text \<open>The catalog row of the end-to-end scenario, on a page titled as an error catalog.\<close>

definition row_ora :: row where
  "row_ora =
     \<lparr> row_error = ''ORA-12154'', row_cause = ''TNS could not resolve'',
       row_remedy = ''Check tnsnames.ora entry. Restart listener.'', row_suggestions = [],
       row_raw = [(''error'', ''ORA-12154''), (''cause'', ''TNS could not resolve''),
                  (''remedy'', ''Check tnsnames.ora entry. Restart listener.'')],
       row_text = ''ORA-12154 TNS could not resolve Check tnsnames.ora entry. Restart listener.'' \<rparr>"

text \<open>A row without a remedy, as a table without a remedy column yields it.\<close>

definition row_login :: row where
  "row_login =
     \<lparr> row_error = ''login fails'', row_cause = [], row_remedy = [], row_suggestions = [],
       row_raw = [(''error'', ''login fails'')], row_text = ''login fails'' \<rparr>"

text \<open>An index over three pages, built as \<^verbatim>\<open>preload_knowledge\<close> builds it, without prose
  sections: a question page with the row that has no remedy, then two catalog pages
  that hold the same row.\<close>

definition item_l :: kb_row where
  "item_l = \<lparr> item_title = ''FAQ'', item_url = ''/pages/0'', item_row = row_login \<rparr>"

definition item_a :: kb_row where
  "item_a = \<lparr> item_title = ''Error Catalog'', item_url = ''/pages/1'', item_row = row_ora \<rparr>"

definition item_b :: kb_row where
  "item_b = \<lparr> item_title = ''Error Catalog'', item_url = ''/pages/2'', item_row = row_ora \<rparr>"

definition toks_login :: "string list" where
  "toks_login = [''login'', ''fails'']"

definition toks_ora :: "string list" where
  "toks_ora = [''ora-12154'', ''tns'', ''resolve'', ''check'', ''tnsnames'', ''ora'', ''entry'',
     ''restart'', ''listener'']"

definition st_three :: kb_state where
  "st_three =
     \<lparr> KB_PAGES = [], KB_SECTIONS = [], SECTION_BM25 = None,
       KB_ROWS = [item_l, item_a, item_b], ROW_TOKENS = [toks_login, toks_ora, toks_ora],
       ROW_BM25 = Some (BM25 [toks_login, toks_ora, toks_ora]) \<rparr>"

section \<open>Answer formatting\<close>

text \<open>\<^verbatim>\<open>str(n)\<close> for a natural number, as the f-strings of the source print an index.\<close>

fun str_nat :: "nat \<Rightarrow> string" where
  "str_nat n =
     (if n < 10 then [char_of (48 + n)] else str_nat (n div 10) @ [char_of (48 + n mod 10)])"

declare str_nat.simps [simp del]

text \<open>Words separated by \<^verbatim>\<open>\s+\<close>, under \<^verbatim>\<open>re.I\<close>.\<close>

fun WordsI :: "string list \<Rightarrow> rx" where
  "WordsI [] = Eps"
| "WordsI [w] = LitI w"
| "WordsI (w # ws) = Seq (LitI w) (Seq (Plus Space) (WordsI ws))"



definition GENERIC_FILLER_PAT :: rx where
  "GENERIC_FILLER_PAT =
     Seqs [WordB,
       Alts [WordsI [''check'', ''for'', ''typos''],
             WordsI [''consult'', ''documentation''],
             WordsI [''refer'', ''to'', ''documentation''],
             WordsI [''make'', ''sure'', ''to'', ''double'', ''check''],
             WordsI [''ensure'', ''that'', ''everything'', ''is'', ''correct'']],
       WordB]"

text \<open>The fifth alternative of \<^verbatim>\<open>ALT_PAT\<close> has a typographic apostrophe (U+2019),
  written here as its bytes; no text below code point 128 matches it.\<close>

definition ALT_PAT :: rx where
  "ALT_PAT =
     Seqs [WordB,
       Alts [LitI ''or'', LitI ''alternatively'', LitI ''optionally'', LitI ''another way'',
             LitI (''if that doesn'' @ [CHR 0xE2, CHR 0x80, CHR 0x99] @ ''t''),
             LitI ''if that does not'', LitI ''if the issue persists''],
       WordB]"

definition ESCALATE_PAT :: rx where
  "ESCALATE_PAT =
     Alts [LitI ''contact'', LitI ''reach out'', LitI ''open a ticket'', LitI ''administrator'',
           LitI ''support'']"

text \<open>\<^verbatim>\<open>^\d+\.\s\<close>, the start of a numbered step.\<close>

definition NUMBERED_RE :: rx where
  "NUMBERED_RE = Seqs [Bol, Plus Digit, Chr CHR ''.'', Space]"

definition is_numbered :: "string \<Rightarrow> bool" where
  "is_numbered line = (re_match NUMBERED_RE line \<noteq> None)"

text \<open>\<^verbatim>\<open>\n(?=\d+\.\s)\<close>, the boundary before a numbered line.\<close>

definition BLOCK_SPLIT_RE :: rx where
  "BLOCK_SPLIT_RE = Seq (Chr NL) (Ahead (Seqs [Plus Digit, Chr CHR ''.'', Space]))"

text \<open>The test of the first loop of \<^verbatim>\<open>sanitize_output\<close>: whether a line is kept.\<close>

definition keep_line :: "config \<Rightarrow> string \<Rightarrow> bool" where
  "keep_line cfg line =
     (let low = strip (lower line) in
      if any_in (FORBIDDEN_PHRASES cfg) low \<or> re_found ESCALATE_PAT low then False
      else if re_found ALT_PAT low \<and> \<not> is_numbered line then False
      else if re_found GENERIC_FILLER_PAT low then False
      else strip line \<noteq> [])"

definition sanitize_output :: "config \<Rightarrow> string \<Rightarrow> string" where
  "sanitize_output cfg txt =
     (let lines = map rstrip (splitlines txt);
          keep = filter (keep_line cfg) lines;
          out = strip (join [NL] keep);
          blocks = re_split BLOCK_SPLIT_RE out;
          out = (if length blocks > 1
                 then hd blocks @ [NL] @
                      join [NL] (filter (\<lambda>b. startswith b ''1.'' \<or> startswith b ''Notes:'')
                                   (tl blocks))
                 else out);
          out = re_sub (Rep (Chr NL) 3 None) (\<lambda>m. [NL, NL]) out
      in strip out)"



























section \<open>Table extraction\<close>

text \<open>
  The parse tree that \<^verbatim>\<open>BeautifulSoup(html, "html.parser")\<close> builds from a page: text
  nodes, and elements with their tag name (in lower case, as the parser gives it) and
  their children. Parsing is the library's and is not modelled: the functions below
  take the tree. Attributes, comments and the other node kinds, which the functions of
  the source do not read, are not part of the tree.
\<close>

datatype node = Text string | Elem string "node list"

text \<open>A node and the nodes below it, in document order.\<close>

primrec subtree :: "node \<Rightarrow> node list" where
  "subtree (Text s) = [Text s]"
| "subtree (Elem t cs) = Elem t cs # concat (map subtree cs)"

definition descendants :: "node \<Rightarrow> node list" where
  "descendants n = tl (subtree n)"

primrec has_tag :: "string list \<Rightarrow> node \<Rightarrow> bool" where
  "has_tag tags (Text s) = False"
| "has_tag tags (Elem t cs) = (t \<in> set tags)"

text \<open>\<^verbatim>\<open>el.find_all(tags)\<close> and \<^verbatim>\<open>el.find(tag)\<close>: the elements below \<open>el\<close> with one of the tag
  names, in document order, and the first of them.\<close>

definition find_all :: "string list \<Rightarrow> node \<Rightarrow> node list" where
  "find_all tags n = filter (has_tag tags) (descendants n)"

definition find_first :: "string \<Rightarrow> node \<Rightarrow> node option" where
  "find_first tag n = (case find_all [tag] n of [] \<Rightarrow> None | x # _ \<Rightarrow> Some x)"

text \<open>\<^verbatim>\<open>el.get_text(separator=sep)\<close>: the texts below \<open>el\<close>, joined by the separator.\<close>

primrec strings :: "node \<Rightarrow> string list" where
  "strings (Text s) = [s]"
| "strings (Elem t cs) = concat (map strings cs)"

definition get_text :: "string \<Rightarrow> node \<Rightarrow> string" where
  "get_text sep n = join sep (strings n)"

definition clean_cell_text :: "node \<Rightarrow> string" where
  "clean_cell_text el = strip (join '' '' (split_ws (get_text '' '' el)))"

definition HEADER_ALIASES :: "(string \<times> string list) list" where
  "HEADER_ALIASES =
     [(''error'', [''error'', ''errors'', ''message'', ''error message'', ''problem'']),
      (''cause'', [''cause'', ''causes'', ''root cause'']),
      (''remedy'', [''remedy'', ''solution'', ''fix'', ''resolution'']),
      (''suggestions'', [''suggestion'', ''suggestions'', ''note'', ''notes'', ''hint'', ''hints'',
         ''tip'', ''tips''])]"

definition normalize_header :: "string \<Rightarrow> string" where
  "normalize_header h0 =
     (let h = lower (strip h0) in
      case filter (\<lambda>(key, aliases). h \<in> set aliases) HEADER_ALIASES of
        (key, aliases) # _ \<Rightarrow> key
      | [] \<Rightarrow>
          if py_in ''error'' h \<or> py_in ''message'' h \<or> py_in ''problem'' h then ''error''
          else if py_in ''cause'' h then ''cause''
          else if py_in ''remedy'' h \<or> py_in ''solution'' h \<or> py_in ''fix'' h
                  \<or> py_in ''resolution'' h then ''remedy''
          else if py_in ''suggest'' h \<or> py_in ''note'' h \<or> py_in ''tip'' h then ''suggestions''
          else if h \<noteq> [] then h else ''col'')"

text \<open>A Python dictionary with string keys, as the list of its items in insertion order:
  \<^verbatim>\<open>d[k] = v\<close> and \<^verbatim>\<open>d.get(k, "")\<close>.\<close>

fun dict_set :: "string \<Rightarrow> string \<Rightarrow> (string \<times> string) list \<Rightarrow> (string \<times> string) list" where
  "dict_set k v [] = [(k, v)]"
| "dict_set k v ((k', v') # kvs) =
     (if k = k' then (k', v) # kvs else (k', v') # dict_set k v kvs)"

definition dict_get :: "string \<Rightarrow> (string \<times> string) list \<Rightarrow> string" where
  "dict_get k d = (case map_of d k of None \<Rightarrow> [] | Some v \<Rightarrow> v)"

text \<open>The headers of a table: the \<^verbatim>\<open>th\<close> cells of its \<^verbatim>\<open>thead\<close>, or else the cells of
  its first row.\<close>

definition table_headers :: "node \<Rightarrow> string list" where
  "table_headers table =
     (let headers =
            (case find_first ''thead'' table of
               None \<Rightarrow> []
             | Some thead \<Rightarrow> map (\<lambda>th. normalize_header (clean_cell_text th))
                              (find_all [''th''] thead))
      in if headers = []
         then (case find_first ''tr'' table of
                 None \<Rightarrow> []
               | Some first_tr \<Rightarrow> map (\<lambda>th. normalize_header (clean_cell_text th))
                                    (find_all [''th'', ''td''] first_tr))
         else headers)"

text \<open>The dictionary comprehension over the cells of a row; \<open>i\<close> is the index of the
  first cell of the list.\<close>

fun cells_from :: "string list \<Rightarrow> nat \<Rightarrow> node list \<Rightarrow> (string \<times> string) list \<Rightarrow> (string \<times> string) list" where
  "cells_from headers i [] d = d"
| "cells_from headers i (td # tds) d =
     cells_from headers (Suc i) tds
       (dict_set (if i < length headers then headers ! i else ''col'' @ str_nat i)
                 (clean_cell_text td) d)"

text \<open>The body of the loop over the rows of a table: the row that a \<^verbatim>\<open>tr\<close> element
  yields, if any.\<close>

definition table_row :: "string list \<Rightarrow> node \<Rightarrow> row option" where
  "table_row headers tr =
     (let tds = find_all [''td''] tr in
      if tds = [] then None
      else
        (let cells = cells_from headers 0 tds [];
             err = strip (dict_get ''error'' cells);
             cause = strip (dict_get ''cause'' cells);
             remedy = strip (dict_get ''remedy'' cells);
             sugg = strip (dict_get ''suggestions'' cells)
         in if length err \<ge> 3
            then Some \<lparr> row_error = err, row_cause = cause, row_remedy = remedy,
                        row_suggestions = sugg, row_raw = cells,
                        row_text = join '' '' (filter (\<lambda>v. v \<noteq> []) [err, cause, remedy, sugg]) \<rparr>
            else None))"

definition extract_table_rows_from_html :: "node \<Rightarrow> row list" where
  "extract_table_rows_from_html soup =
     concat (map (\<lambda>table. List.map_filter (table_row (table_headers table))
                             (find_all [''tr''] table))
               (find_all [''table''] soup))"

text \<open>The table of the round-trip scenario, with its header row in \<^verbatim>\<open>td\<close> cells and in
  \<^verbatim>\<open>th\<close> cells.\<close>

definition cell :: "string \<Rightarrow> string \<Rightarrow> node" where
  "cell tag s = Elem tag [Text s]"

definition data_tr :: node where
  "data_tr = Elem ''tr'' [cell ''td'' ''ORA-12154'', cell ''td'' ''TNS could not resolve'',
     cell ''td'' ''Check tnsnames.ora entry. Restart listener.'']"

definition page_td :: node where
  "page_td = Elem ''[document]'' [Elem ''table''
     [Elem ''tr'' [cell ''td'' ''Error'', cell ''td'' ''Cause'', cell ''td'' ''Remedy''], data_tr]]"

definition page_th :: node where
  "page_th = Elem ''[document]'' [Elem ''table''
     [Elem ''tr'' [cell ''th'' ''Error'', cell ''th'' ''Cause'', cell ''th'' ''Remedy''], data_tr]]"

definition row_header :: row where
  "row_header =
     \<lparr> row_error = ''Error'', row_cause = ''Cause'', row_remedy = ''Remedy'', row_suggestions = [],
       row_raw = [(''error'', ''Error''), (''cause'', ''Cause''), (''remedy'', ''Remedy'')],
       row_text = ''Error Cause Remedy'' \<rparr>"

section \<open>Answering from the knowledge base\<close>





















section \<open>Properties of the tokenizer\<close>

text \<open>
  Claim C6. For every input string, every token returned by \<open>tokenize\<close> has length at
  least 3 and is not a member of the stop-word set, and tokenizing the empty string
  yields the empty sequence.
\<close>

theorem tokenize_tokens:
  "(\<forall>w \<in> set (tokenize s). 3 \<le> length w \<and> w \<notin> set STOP) \<and> tokenize [] = []"
  by (auto simp: tokenize_def split_ws_def strip_punct_def lower_def)

theorem tokenize_tokens_witness:
  "tokenize ''The ORA-12154 error is back!'' = [''ora-12154'', ''error'', ''back'']
   \<and> 3 \<le> length ''error'' \<and> ''error'' \<notin> set STOP"
proof -
  have ev: "tokenize ''The ORA-12154 error is back!'' = [''ora-12154'', ''error'', ''back'']"
    by code_simp
  from tokenize_tokens [of "''The ORA-12154 error is back!''"] ev show ?thesis
    by simp
qed

section \<open>Properties of BM25\<close>

lemma idf_arith:
  fixes N n :: real
  assumes "0 \<le> n"
  shows "1 + (N - n + 1/2) / (n + 1/2) = (N + 1) / (n + 1/2)"
proof -
  have "n + 1/2 \<noteq> 0" using assms by linarith
  then show ?thesis by (simp add: field_simps)
qed

lemma idf_val:
  assumes "bm_N bm \<noteq> 0"
  shows "idf bm t =
     (if (real (bm_N bm) + 1) / (real (bm_df bm t) + 1/2) \<le> 0 then Inl ValueError
      else Inr (ln ((real (bm_N bm) + 1) / (real (bm_df bm t) + 1/2))))"
proof -
  have nz: "real (bm_df bm t) + 1/2 \<noteq> 0"
    by (metis add_nonneg_pos half_gt_zero_iff less_numeral_extra(1) of_nat_0_le_iff order_less_irrefl)
  show ?thesis
    unfolding idf_def Let_def bind_def py_truediv_def py_log_def
    using assms nz idf_arith [of "real (bm_df bm t)" "real (bm_N bm)"] by simp
qed

lemma idf_init:
  assumes "docs \<noteq> []"
  shows "idf (BM25_init docs k b) t =
     Inr (ln ((real (length docs) + 1) / (real (length (filter (\<lambda>d. t \<in> set d) docs)) + 1/2)))"
proof -
  let ?n = "real (length (filter (\<lambda>d. t \<in> set d) docs))"
  have "0 < ?n + 1/2" by (simp add: add_nonneg_pos)
  moreover have "0 < real (length docs) + 1" by (simp add: add_nonneg_pos)
  ultimately have "0 < (real (length docs) + 1) / (?n + 1/2)" by (simp add: divide_pos_pos)
  then have "\<not> (real (length docs) + 1) / (?n + 1/2) \<le> 0" by linarith
  moreover have "bm_N (BM25_init docs k b) \<noteq> 0" using assms by (simp add: BM25_init_def)
  moreover have "bm_N (BM25_init docs k b) = length docs" by (simp add: BM25_init_def)
  moreover have "bm_df (BM25_init docs k b) t = length (filter (\<lambda>d. t \<in> set d) docs)"
    by (simp add: BM25_init_def)
  ultimately show ?thesis using idf_val [of "BM25_init docs k b" t] by simp
qed

lemma idf_nonneg:
  assumes "docs \<noteq> []"
  shows "\<exists>v. idf (BM25_init docs k b) t = Inr v \<and> 0 \<le> v"
proof -
  let ?n = "real (length (filter (\<lambda>d. t \<in> set d) docs))"
  let ?N = "real (length docs)"
  have "length (filter (\<lambda>d. t \<in> set d) docs) \<le> length docs" by simp
  then have "?n \<le> ?N" by (rule iffD2 [OF of_nat_le_iff])
  then have "?n + 1/2 \<le> ?N + 1" by linarith
  moreover have "0 < ?n + 1/2" by (simp add: add_nonneg_pos)
  ultimately have "1 \<le> (?N + 1) / (?n + 1/2)" by (simp add: le_divide_eq)
  then have "0 \<le> ln ((?N + 1) / (?n + 1/2))" by (rule ln_ge_zero)
  then show ?thesis using idf_init[OF assms] by simp
qed

lemma idf_mono:
  assumes "docs \<noteq> []" "length docs' = length docs"
      and "bm_df (BM25_init docs k b) t \<le> bm_df (BM25_init docs' k' b') t'"
  shows "\<exists>v v'. idf (BM25_init docs k b) t = Inr v \<and> idf (BM25_init docs' k' b') t' = Inr v' \<and> v' \<le> v"
proof -
  let ?n = "real (length (filter (\<lambda>d. t \<in> set d) docs))"
  let ?n' = "real (length (filter (\<lambda>d. t' \<in> set d) docs'))"
  let ?N = "real (length docs)"
  have d': "docs' \<noteq> []" using assms by auto
  have "length (filter (\<lambda>d. t \<in> set d) docs) \<le> length (filter (\<lambda>d. t' \<in> set d) docs')"
    using assms(3) by (simp add: BM25_init_def)
  then have le: "?n \<le> ?n'" by (rule iffD2 [OF of_nat_le_iff])
  have p: "0 < ?n + 1/2" and p': "0 < ?n' + 1/2" and pN: "0 < ?N + 1"
    by (simp_all add: add_nonneg_pos)
  have "(?N + 1) / (?n' + 1/2) \<le> (?N + 1) / (?n + 1/2)"
    using le p p' pN by (simp add: frac_le)
  moreover have "(?N + 1) / (?n' + 1/2) > 0" using p' pN by (simp add: divide_pos_pos)
  moreover have "(?N + 1) / (?n + 1/2) > 0" using p pN by (simp add: divide_pos_pos)
  ultimately have "ln ((?N + 1) / (?n' + 1/2)) \<le> ln ((?N + 1) / (?n + 1/2))"
    by (simp only: ln_le_cancel_iff)
  then show ?thesis using idf_init[OF assms(1)] idf_init[OF d'] assms(2) by simp
qed

lemma idf_empty: "idf (BM25_init [] k b) t = Inr 0"
  by (simp add: idf_def BM25_init_def)

lemma score_loop_absent:
  "t \<notin> set doc \<Longrightarrow> score_loop bm dl doc acc (q1 @ t # q2) = score_loop bm dl doc acc (q1 @ q2)"
  by (induction q1 arbitrary: acc) (auto simp: bind_def split: sum.splits)

lemma score_absent:
  assumes "py_index (bm_docs_tokens bm) i = Inr doc" "t \<notin> set doc"
  shows "score bm (q1 @ t # q2) i = score bm (q1 @ q2) i"
  using assms by (auto simp: score_def bind_def score_loop_absent split: sum.splits)

lemma score_empty:
  assumes "0 \<le> i" "i < int (length docs)"
  shows "score (BM25_init docs k b) [] i = Inr 0"
  using assms by (simp add: score_def bind_def BM25_init_def py_index_def Let_def)

lemma avgdl_nonneg: "0 \<le> bm_avgdl (BM25_init docs k b)"
  by (simp add: BM25_init_def)

lemma score_loop_total:
  assumes "docs \<noteq> []" "0 \<le> k" "0 \<le> b" "b \<le> 1"
  shows "\<exists>v. score_loop (BM25_init docs k b) dl doc acc ts = Inr v"
proof (induction ts arbitrary: acc)
  case Nil
  show ?case by simp
next
  case (Cons t ts)
  let ?bm = "BM25_init docs k b"
  show ?case
  proof (cases "t \<in> set doc")
    case False
    then show ?thesis using Cons.IH by simp
  next
    case True
    obtain i where i: "idf ?bm t = Inr i" using idf_init [OF assms(1)] by blast
    let ?a = "if bm_avgdl ?bm \<noteq> 0 then bm_avgdl ?bm else 1"
    have apos: "0 < ?a" using avgdl_nonneg [of docs k b] by (simp add: less_le)
    then have d1: "py_truediv (bm_b ?bm * real dl) ?a = Inr (bm_b ?bm * real dl / ?a)"
      by (simp add: py_truediv_def)
    have kb: "bm_k1 ?bm = k" "bm_b ?bm = b" by (simp_all add: BM25_init_def)
    have rn: "0 \<le> b * real dl / ?a" using assms(3) apos by simp
    have "count_list doc t \<noteq> 0" using True by (simp add: count_list_0_iff)
    then have f1: "1 \<le> real (count_list doc t)" by simp
    have "0 \<le> k * (1 - b + b * real dl / ?a)" using assms(2,4) rn by simp
    then have dpos: "0 < real (count_list doc t) + k * (1 - b + b * real dl / ?a)"
      using f1 by linarith
    then have d2: "py_truediv (real (count_list doc t) * (k + 1))
          (real (count_list doc t) + k * (1 - b + b * real dl / ?a))
        = Inr (real (count_list doc t) * (k + 1) /
          (real (count_list doc t) + k * (1 - b + b * real dl / ?a)))"
      by (simp add: py_truediv_def)
    show ?thesis
      using True i d1 d2 kb Cons.IH by (simp add: bind_def Let_def)
  qed
qed

lemma score_total:
  assumes "i < length docs"
  shows "\<exists>v. score (BM25 docs) q (int i) = Inr v"
proof -
  have ne: "docs \<noteq> []" using assms by auto
  have ix1: "py_index (bm_doc_len (BM25 docs)) (int i) = Inr (length (docs ! i))"
    using assms by (simp add: py_index_def BM25_def BM25_init_def)
  have ix2: "py_index (bm_docs_tokens (BM25 docs)) (int i) = Inr (docs ! i)"
    using assms by (simp add: py_index_def BM25_def BM25_init_def)
  obtain v where "score_loop (BM25_init docs (3/2) (3/4))
      (if length (docs ! i) \<noteq> 0 then length (docs ! i) else 1) (docs ! i) 0 q = Inr v"
    using score_loop_total [OF ne, of "3/2" "3/4"] by force
  then show ?thesis using ix1 ix2 by (simp add: score_def bind_def Let_def BM25_def)
qed

lemma score_loop_no_common:
  "set ts \<inter> set doc = {} \<Longrightarrow> score_loop bm dl doc acc ts = Inr acc"
  by (induction ts arbitrary: acc) auto

lemma score_empty_doc:
  assumes "i < length docs" "docs ! i = []"
  shows "score (BM25 docs) q (int i) = Inr 0"
proof -
  have ix1: "py_index (bm_doc_len (BM25 docs)) (int i) = Inr 0"
    using assms by (simp add: py_index_def BM25_def BM25_init_def)
  have ix2: "py_index (bm_docs_tokens (BM25 docs)) (int i) = Inr []"
    using assms by (simp add: py_index_def BM25_def BM25_init_def)
  show ?thesis using ix1 ix2 score_loop_no_common [of q "[]"]
    by (simp add: score_def bind_def Let_def)
qed

lemma score_empty_corpus: "score (BM25 []) q i = Inl IndexError"
proof -
  have "py_index (bm_doc_len (BM25 [])) i = Inl IndexError"
    by (simp add: BM25_def BM25_init_def py_index_def)
  then show ?thesis by (simp add: score_def bind_def)
qed

text \<open>
  Claim C7. For a fixed non-empty corpus, \<open>idf\<close> of any term is non-negative and
  monotonically non-increasing as the term's document frequency increases (also across
  corpora of the same size), and it is 0 when the corpus is empty; a query term absent
  from a document contributes exactly 0 to \<open>score\<close> for that document (dropping it from
  the query leaves the score unchanged); and scoring the empty query-token list against
  any document of the corpus returns 0.
\<close>

theorem BM25_properties:
  "(docs \<noteq> [] \<longrightarrow>
      (\<exists>v. idf (BM25_init docs k b) t = Inr v \<and> 0 \<le> v) \<and>
      (\<forall>docs' k' b' t'. length docs' = length docs \<and>
          bm_df (BM25_init docs k b) t \<le> bm_df (BM25_init docs' k' b') t' \<longrightarrow>
          (\<exists>v v'. idf (BM25_init docs k b) t = Inr v \<and>
                   idf (BM25_init docs' k' b') t' = Inr v' \<and> v' \<le> v)))
   \<and> idf (BM25_init [] k b) t = Inr 0
   \<and> (\<forall>(bm::bm25) i doc q1 q2. py_index (bm_docs_tokens bm) i = Inr doc \<and> t \<notin> set doc \<longrightarrow>
         score bm (q1 @ t # q2) i = score bm (q1 @ q2) i)
   \<and> (\<forall>i. 0 \<le> i \<and> i < int (length docs) \<longrightarrow> score (BM25_init docs k b) [] i = Inr 0)"
proof (intro conjI impI allI)
  assume "docs \<noteq> []"
  then show "\<exists>v. idf (BM25_init docs k b) t = Inr v \<and> 0 \<le> v" by (rule idf_nonneg)
next
  fix docs' k' b' t'
  assume "docs \<noteq> []"
    and "length docs' = length docs \<and>
         bm_df (BM25_init docs k b) t \<le> bm_df (BM25_init docs' k' b') t'"
  then show "\<exists>v v'. idf (BM25_init docs k b) t = Inr v \<and>
                     idf (BM25_init docs' k' b') t' = Inr v' \<and> v' \<le> v"
    using idf_mono [of docs docs' k b t k' b' t'] by blast
next
  show "idf (BM25_init [] k b) t = Inr 0" by (rule idf_empty)
next
  fix bm :: bm25 and i doc q1 q2
  assume "py_index (bm_docs_tokens bm) i = Inr doc \<and> t \<notin> set doc"
  then show "score bm (q1 @ t # q2) i = score bm (q1 @ q2) i"
    using score_absent by blast
next
  fix i
  assume "0 \<le> i \<and> i < int (length docs)"
  then show "score (BM25_init docs k b) [] i = Inr 0"
    using score_empty by blast
qed

theorem BM25_properties_witness:
  "(\<exists>v v'. idf (BM25 corpus_ex) ''ora-12154'' = Inr v \<and>
            idf (BM25 corpus_ex) ''error'' = Inr v' \<and> v' \<le> v)
   \<and> (\<exists>v. idf (BM25 corpus_ex) ''error'' = Inr v \<and> 0 \<le> v)
   \<and> score (BM25 corpus_ex) ([''error''] @ ''ora-12154'' # [''zzz'']) 1
       = score (BM25 corpus_ex) ([''error''] @ [''zzz'']) 1
   \<and> score (BM25 corpus_ex) [] 1 = Inr 0"
proof -
  have ne: "corpus_ex \<noteq> []" by (simp add: corpus_ex_def)
  have df: "bm_df (BM25_init corpus_ex (3/2) (3/4)) ''ora-12154''
        \<le> bm_df (BM25_init corpus_ex (3/2) (3/4)) ''error''"
    by (simp add: BM25_init_def corpus_ex_def)
  have ix: "py_index (bm_docs_tokens (BM25 corpus_ex)) 1 = Inr [''error'', ''listener'']"
    by (simp add: BM25_def BM25_init_def corpus_ex_def py_index_def)
  have len: "(1::int) < int (length corpus_ex)" by (simp add: corpus_ex_def)
  note a = BM25_properties [of corpus_ex "3/2" "3/4" "''ora-12154''"]
  note e = BM25_properties [of corpus_ex "3/2" "3/4" "''error''"]
  note a1 = a [THEN conjunct1, rule_format, OF ne, THEN conjunct2, rule_format]
  note e1 = e [THEN conjunct1, rule_format, OF ne, THEN conjunct1]
  note a3 = a [THEN conjunct2, THEN conjunct2, THEN conjunct1, rule_format]
  note a4 = a [THEN conjunct2, THEN conjunct2, THEN conjunct2, rule_format]
  have m: "\<exists>v v'. idf (BM25 corpus_ex) ''ora-12154'' = Inr v \<and>
            idf (BM25 corpus_ex) ''error'' = Inr v' \<and> v' \<le> v"
    unfolding BM25_def using a1 [of corpus_ex "3/2" "3/4" "''error''"] df by simp
  have n: "\<exists>v. idf (BM25 corpus_ex) ''error'' = Inr v \<and> 0 \<le> v"
    unfolding BM25_def using e1 by simp
  have s: "score (BM25 corpus_ex) ([''error''] @ ''ora-12154'' # [''zzz'']) 1
       = score (BM25 corpus_ex) ([''error''] @ [''zzz'']) 1"
    by (rule a3 [of "BM25 corpus_ex" 1 "[''error'', ''listener'']"]) (simp add: ix)
  have z: "score (BM25 corpus_ex) [] 1 = Inr 0"
    unfolding BM25_def using a4 [of 1] len by simp
  from m n s z show ?thesis by (intro conjI)
qed

section \<open>Facts about the string operations\<close>

lemma startswith_append: "startswith (s @ q) s"
  by (induction s) auto

lemma py_in_here: "py_in s (s @ q)"
proof (cases "s @ q")
  case Nil
  then show ?thesis by simp
next
  case (Cons c cs)
  have "startswith (s @ q) s" by (rule startswith_append)
  with Cons show ?thesis by simp
qed

lemma py_in_append: "py_in s (p @ s @ q)"
proof (induction p)
  case Nil
  show ?case using py_in_here by simp
next
  case (Cons c p)
  then show ?case by simp
qed

lemma rstrip_decomp: "s = rstrip s @ rev (takeWhile is_space (rev s))"
proof -
  have "rev (rev s) = rev (takeWhile is_space (rev s) @ dropWhile is_space (rev s))"
    by (simp only: takeWhile_dropWhile_id)
  then show ?thesis by (simp only: rstrip_def rev_append rev_rev_ident)
qed

lemma strip_decomp: "\<exists>p q. s = p @ strip s @ q"
proof -
  have "rstrip s = takeWhile is_space (rstrip s) @ strip s"
    by (simp add: strip_def lstrip_def)
  with rstrip_decomp [of s]
  have "s = takeWhile is_space (rstrip s) @ strip s @ rev (takeWhile is_space (rev s))"
    by (metis append.assoc)
  then show ?thesis by blast
qed

lemma py_in_strip: "py_in (strip s) s"
proof -
  obtain p q where "s = p @ strip s @ q" using strip_decomp by blast
  then show ?thesis using py_in_append [of "strip s" p q] by simp
qed

lemma is_space_lower_char: "is_space (lower_char c) = is_space c"
  by (auto simp: lower_char_def is_space_def is_upper_def code_def)

lemma lower_strip: "lower (strip s) = strip (lower s)"
proof -
  have sp: "is_space \<circ> lower_char = is_space"
    by (rule ext) (simp add: is_space_lower_char)
  have dw: "\<And>xs. dropWhile is_space (map lower_char xs) = map lower_char (dropWhile is_space xs)"
    by (simp add: dropWhile_map sp)
  show ?thesis
    by (simp add: lower_def strip_def lstrip_def rstrip_def dw rev_map)
qed

lemma lower_eq_Nil: "lower s = [] \<longleftrightarrow> s = []"
  by (simp add: lower_def)

section \<open>Properties of the row scorer\<close>

lemma hard_score_range: "0 \<le> hard_score cfg r q \<and> hard_score cfg r q \<le> 1"
  by (simp add: hard_score_def Let_def split: option.split)

lemma remedy_bias_nonneg: "0 \<le> remedy_bias r"
  by (simp add: remedy_bias_def)

lemma remedy_bias_ge: "row_remedy r \<noteq> [] \<Longrightarrow> 8/100 \<le> remedy_bias r"
  by (simp add: remedy_bias_def)

lemma ui_bias_nonneg: "0 \<le> ui_bias r q"
  by (simp add: ui_bias_def Let_def)

lemma span_bias_nonneg: "0 \<le> span_bias r sps"
  by (induction sps) (simp_all add: Let_def)

lemma title_sim_bias_nonneg: "fuzz_ok fz \<Longrightarrow> 0 \<le> title_sim_bias fz q t"
  by (simp add: title_sim_bias_def fuzz_ok_def)

lemma page_bias_nonneg: "0 \<le> ERROR_PAGE_BIAS cfg \<Longrightarrow> 0 \<le> page_bias cfg t"
  by (simp add: page_bias_def)

lemma penalty_range: "0 \<le> title_generic_penalty t \<and> title_generic_penalty t \<le> 10/100"
  by (simp add: title_generic_penalty_def)

lemma fuzzy_base_nonneg: "fuzz_ok fz \<Longrightarrow> 0 \<le> fuzzy_base fz r q"
  by (simp add: fuzzy_base_def fuzz_ok_def Let_def)

lemma clamp_le:
  fixes x c :: real
  assumes "x \<le> c" "0 \<le> c"
  shows "max 0 (min 1 x) \<le> c"
  using assms by (simp add: min_def max_def)

lemma score_row_unfold:
  "score_row_against_query cfg fz r q t =
     max 0 (min 1 (max (hard_score cfg r q) (fuzzy_base fz r q)
       + (remedy_bias r + page_bias cfg t + ui_bias r q
          + span_bias r (extract_query_spans (strip q)) + title_sim_bias fz q t)
       - title_generic_penalty t))"
  by (simp add: score_row_against_query_def Let_def add.assoc)

lemma score_in_unit:
  "0 \<le> score_row_against_query cfg fz r q t \<and> score_row_against_query cfg fz r q t \<le> 1"
  by (simp add: score_row_against_query_def Let_def)

lemma hard_exact:
  assumes "ERROR_ROW_HARDMATCH cfg" "lower q = lower (row_error r)" "strip q \<noteq> []"
  shows "hard_score cfg r q = 1"
proof -
  have qne: "q \<noteq> []" using assms(3) by (auto simp: strip_def lstrip_def rstrip_def)
  then have "lower q \<noteq> []" by (simp add: lower_eq_Nil)
  then have err: "row_error r \<noteq> []" using assms(2) by (auto simp: lower_eq_Nil)
  have ql: "lower (strip q) \<noteq> []" using assms(3) by (simp add: lower_eq_Nil)
  have "py_in (strip (lower q)) (lower q)" by (rule py_in_strip)
  then have "py_in (lower (strip q)) (lower (row_error r))"
    using assms(2) by (simp add: lower_strip)
  then show ?thesis using assms(1) err ql by (simp add: hard_score_def Let_def)
qed

lemma score_exact:
  assumes "ERROR_ROW_HARDMATCH cfg" "fuzz_ok fz" "0 \<le> ERROR_PAGE_BIAS cfg"
      and "lower q = lower (row_error r)" "strip q \<noteq> []"
      and "row_remedy r \<noteq> [] \<or> \<not> any_in GENERIC_WORDS (lower t)"
  shows "95/100 \<le> score_row_against_query cfg fz r q t"
proof -
  have h: "hard_score cfg r q = 1" using assms(1,4,5) by (rule hard_exact)
  let ?B = "remedy_bias r + page_bias cfg t + ui_bias r q
          + span_bias r (extract_query_spans (strip q)) + title_sim_bias fz q t"
  have parts: "0 \<le> page_bias cfg t" "0 \<le> ui_bias r q"
    "0 \<le> span_bias r (extract_query_spans (strip q))" "0 \<le> title_sim_bias fz q t"
    "0 \<le> remedy_bias r"
    using assms(2,3) by (simp_all add: page_bias_nonneg ui_bias_nonneg span_bias_nonneg
        title_sim_bias_nonneg remedy_bias_nonneg)
  have "95/100 \<le> 1 + ?B - title_generic_penalty t"
  proof (cases "row_remedy r \<noteq> []")
    case True
    then have "8/100 \<le> remedy_bias r" by (rule remedy_bias_ge)
    moreover have "title_generic_penalty t \<le> 10/100" using penalty_range by blast
    ultimately show ?thesis using parts by linarith
  next
    case False
    with assms(6) have "title_generic_penalty t = 0" by (simp add: title_generic_penalty_def)
    then show ?thesis using parts by linarith
  qed
  moreover have "1 \<le> max (hard_score cfg r q) (fuzzy_base fz r q)" using h by simp
  ultimately have "95/100 \<le> max (hard_score cfg r q) (fuzzy_base fz r q) + ?B - title_generic_penalty t"
    by linarith
  then show ?thesis unfolding score_row_unfold by simp
qed

lemma score_empty_query_remedy:
  assumes "fuzz_ok fz" "row_remedy r \<noteq> []"
  shows "8/100 \<le> score_row_against_query cfg fz r [] []"
proof -
  have "0 \<le> max (hard_score cfg r []) (fuzzy_base fz r [])"
    using hard_score_range [of cfg r "[]"] by linarith
  moreover have "8/100 \<le> remedy_bias r" using assms(2) by (rule remedy_bias_ge)
  moreover have "page_bias cfg [] = 0" by (simp add: page_bias_def)
  moreover have "title_sim_bias fz [] [] = 0" by (simp add: title_sim_bias_def)
  moreover have "title_generic_penalty [] = 0"
    by (simp add: title_generic_penalty_def any_in_def GENERIC_WORDS_def lower_def)
  moreover have "0 \<le> ui_bias r []" by (rule ui_bias_nonneg)
  moreover have "0 \<le> span_bias r (extract_query_spans (strip []))" by (rule span_bias_nonneg)
  ultimately have "8/100 \<le> max (hard_score cfg r []) (fuzzy_base fz r [])
       + (remedy_bias r + page_bias cfg [] + ui_bias r []
          + span_bias r (extract_query_spans (strip [])) + title_sim_bias fz [] [])
       - title_generic_penalty []" by linarith
  then show ?thesis unfolding score_row_unfold by simp
qed


lemma fuzzy_base_le_1: "fuzz_ok fz \<Longrightarrow> fuzzy_base fz r q \<le> 1"
proof -
  assume ok: "fuzz_ok fz"
  let ?ql = "lower (strip q)"
  have a: "partial_ratio fz ?ql (lower (row_error r)) \<le> 100"
    and b: "token_set_ratio fz ?ql (lower (row_error r)) \<le> 100"
    and c: "partial_ratio fz ?ql (lower (row_text r)) \<le> 100"
    and d: "token_set_ratio fz ?ql (lower (row_text r)) \<le> 100"
    using ok by (simp_all add: fuzz_ok_def)
  show ?thesis unfolding fuzzy_base_def Let_def using a b c d by simp
qed

text \<open>
  Claim C2. For every row record, every query string and every page title,
  \<open>score_row_against_query\<close> returns a number in the closed interval from 0 to 1: the
  maximum of the hard-match score and the weighted fuzzy base, plus the additive bias
  terms and minus the generic-title penalty, clamped to that interval.
\<close>

theorem score_row_clamped:
  "score_row_against_query cfg fz r q t =
     max 0 (min 1 (max (hard_score cfg r q) (fuzzy_base fz r q)
       + (remedy_bias r + page_bias cfg t + ui_bias r q
          + span_bias r (extract_query_spans (strip q)) + title_sim_bias fz q t)
       - title_generic_penalty t))
   \<and> 0 \<le> score_row_against_query cfg fz r q t
   \<and> score_row_against_query cfg fz r q t \<le> 1"
  using score_row_unfold [of cfg fz r q t] by simp

theorem score_row_clamped_witness:
  "hard_score default_config row_ora ''I get ORA-12154'' = 1
   \<and> remedy_bias row_ora = 8/100
   \<and> score_row_against_query default_config fuzz_all_distinct row_ora ''I get ORA-12154'' ''Error Catalog'' = 1
   \<and> 0 \<le> score_row_against_query default_config fuzz_all_distinct row_ora ''I get ORA-12154'' ''Error Catalog''
   \<and> score_row_against_query default_config fuzz_all_distinct row_ora ''I get ORA-12154'' ''Error Catalog'' \<le> 1"
proof -
  have h: "hard_score default_config row_ora ''I get ORA-12154'' = 1" by code_simp
  have b: "remedy_bias row_ora = 8/100" by (simp add: remedy_bias_def row_ora_def)
  note c = score_row_clamped [of default_config fuzz_all_distinct row_ora
      "''I get ORA-12154''" "''Error Catalog''"]
  have nn: "0 \<le> page_bias default_config ''Error Catalog''"
    "0 \<le> ui_bias row_ora ''I get ORA-12154''"
    "0 \<le> span_bias row_ora (extract_query_spans (strip ''I get ORA-12154''))"
    "0 \<le> title_sim_bias fuzz_all_distinct ''I get ORA-12154'' ''Error Catalog''"
    by (simp_all add: page_bias_nonneg default_config_def ui_bias_nonneg span_bias_nonneg
        title_sim_bias_nonneg fuzz_ok_def fuzz_all_distinct_def)
  have p: "title_generic_penalty ''Error Catalog'' = 0" by code_simp
  have "1 \<le> max (hard_score default_config row_ora ''I get ORA-12154'')
                 (fuzzy_base fuzz_all_distinct row_ora ''I get ORA-12154'')
       + (remedy_bias row_ora + page_bias default_config ''Error Catalog''
          + ui_bias row_ora ''I get ORA-12154''
          + span_bias row_ora (extract_query_spans (strip ''I get ORA-12154''))
          + title_sim_bias fuzz_all_distinct ''I get ORA-12154'' ''Error Catalog'')
       - title_generic_penalty ''Error Catalog''"
    using h b nn p by simp
  then have "score_row_against_query default_config fuzz_all_distinct row_ora
       ''I get ORA-12154'' ''Error Catalog'' = 1"
    using c by simp
  with h b c show ?thesis by simp
qed

text \<open>
  Claim C3, as stated: with hard-match mode enabled, a non-empty query equal to a row's
  non-empty error text scores at least 0.95. The generic-title penalty is subtracted
  after the maximum with the hard-match score is taken, so a row without a remedy on
  a page whose title contains a generic word scores at most 0.94, whatever the fuzzy
  similarities are; the counterexample takes them at their maximum.
\<close>

lemma score_login_faq_le:
  assumes "fuzz_ok fz"
  shows "score_row_against_query default_config fz row_login ''login fails'' ''FAQ'' \<le> 94/100"
proof -
  have h: "hard_score default_config row_login ''login fails'' = 1" by code_simp
  have f: "fuzzy_base fz row_login ''login fails'' \<le> 1" using assms by (rule fuzzy_base_le_1)
  have b: "remedy_bias row_login = 0" by (simp add: remedy_bias_def row_login_def)
  have pg: "page_bias default_config ''FAQ'' = 0" by code_simp
  have ui: "ui_bias row_login ''login fails'' = 0" by code_simp
  have sp: "span_bias row_login (extract_query_spans (strip ''login fails'')) = 0" by code_simp
  have "partial_ratio fz (lower (strip ''login fails'')) (lower ''FAQ'') \<le> 100"
    using assms by (simp add: fuzz_ok_def)
  then have ts: "title_sim_bias fz ''login fails'' ''FAQ'' \<le> 4/100"
    by (simp add: title_sim_bias_def)
  have pen: "title_generic_penalty ''FAQ'' = 10/100" by code_simp
  have "max (hard_score default_config row_login ''login fails'')
            (fuzzy_base fz row_login ''login fails'')
       + (remedy_bias row_login + page_bias default_config ''FAQ''
          + ui_bias row_login ''login fails''
          + span_bias row_login (extract_query_spans (strip ''login fails''))
          + title_sim_bias fz ''login fails'' ''FAQ'')
       - title_generic_penalty ''FAQ'' \<le> 94/100"
    using h f b pg ui sp ts pen by simp
  then show ?thesis unfolding score_row_unfold by (rule clamp_le) simp
qed

theorem hard_match_counterexample:
  "ERROR_ROW_HARDMATCH default_config \<and> row_error row_login \<noteq> []
   \<and> lower ''login fails'' = lower (row_error row_login)
   \<and> score_row_against_query default_config fuzz_all_equal row_login ''login fails'' ''FAQ''
       = 94/100"
  by code_simp

text \<open>
  Claim C3, amended. With hard-match mode enabled, a non-negative page bias and
  similarities between 0 and 100, for every row and every query that is
  case-insensitively equal to the row's error text and is not blank,
  \<open>score_row_against_query\<close> returns at least 0.95, provided the row has a non-empty
  remedy or the page title contains none of the generic words.
\<close>

theorem hard_match_exact_score:
  assumes "ERROR_ROW_HARDMATCH cfg" "fuzz_ok fz" "0 \<le> ERROR_PAGE_BIAS cfg"
      and "lower q = lower (row_error r)" "strip q \<noteq> []"
      and "row_remedy r \<noteq> [] \<or> \<not> any_in GENERIC_WORDS (lower t)"
  shows "95/100 \<le> score_row_against_query cfg fz r q t"
  using assms by (rule score_exact)

theorem hard_match_exact_score_witness:
  "95/100 \<le> score_row_against_query default_config fuzz_all_distinct row_ora ''ora-12154'' ''FAQ''"
proof -
  have 1: "ERROR_ROW_HARDMATCH default_config" by (simp add: default_config_def)
  have 2: "fuzz_ok fuzz_all_distinct" by (simp add: fuzz_ok_def fuzz_all_distinct_def)
  have 3: "0 \<le> ERROR_PAGE_BIAS default_config" by (simp add: default_config_def)
  have 4: "lower ''ora-12154'' = lower (row_error row_ora)" by code_simp
  have 5: "strip ''ora-12154'' \<noteq> []" by code_simp
  have 6: "row_remedy row_ora \<noteq> [] \<or> \<not> any_in GENERIC_WORDS (lower ''FAQ'')"
    by (simp add: row_ora_def)
  from hard_match_exact_score [OF 1 2 3 4 5 6] show ?thesis .
qed

section \<open>Properties of the row candidates\<close>

lemma blended_total:
  assumes "kb_built st"
  shows "\<exists>v. blended cfg fz st q i item = Inr v"
proof (cases "ROW_BM25 st")
  case None
  then show ?thesis by (simp add: blended_def bind_def Let_def)
next
  case (Some bm)
  with assms have bm: "bm = BM25 (ROW_TOKENS st)"
    by (auto simp: kb_built_def split: if_splits)
  show ?thesis
  proof (cases "i < length (ROW_TOKENS st)")
    case True
    then obtain v where "score (BM25 (ROW_TOKENS st)) (tokenize q) (int i) = Inr v"
      using score_total by blast
    with Some bm True show ?thesis by (simp add: blended_def bind_def Let_def)
  next
    case False
    with Some show ?thesis by (simp add: blended_def bind_def Let_def)
  qed
qed

lemma cands_loop_total:
  assumes "kb_built st"
  shows "\<exists>cs. cands_loop cfg fz st q i items = Inr cs"
proof (induction items arbitrary: i)
  case Nil
  show ?case by simp
next
  case (Cons item items)
  obtain v where "blended cfg fz st q i item = Inr v" using blended_total [OF assms] by blast
  moreover obtain cs where "cands_loop cfg fz st q (Suc i) items = Inr cs" using Cons by blast
  ultimately show ?case by (simp add: bind_def)
qed

lemma cands_loop_shape:
  "cands_loop cfg fz st q i items = Inr cs \<Longrightarrow>
     map (fst \<circ> snd) cs = [i ..< i + length items] \<and> map (snd \<circ> snd) cs = items"
proof (induction items arbitrary: i cs)
  case Nil
  then show ?case by simp
next
  case (Cons item items)
  from Cons.prems obtain sc cs' where
    cs': "cands_loop cfg fz st q (Suc i) items = Inr cs'" and cs: "cs = (sc, i, item) # cs'"
    by (auto simp: bind_def split: sum.splits)
  from Cons.IH [OF cs'] show ?case using cs by (simp add: upt_rec)
qed

lemma cands_loop_nth:
  "cands_loop cfg fz st q i items = Inr cs \<Longrightarrow>
     length cs = length items \<and>
     (\<forall>j < length items.
        blended cfg fz st q (i + j) (items ! j) = Inr (fst (cs ! j)) \<and>
        snd (cs ! j) = (i + j, items ! j))"
proof (induction items arbitrary: i cs)
  case Nil
  then show ?case by simp
next
  case (Cons item items)
  from Cons.prems obtain sc cs' where
    sc: "blended cfg fz st q i item = Inr sc" and
    cs': "cands_loop cfg fz st q (Suc i) items = Inr cs'" and cs: "cs = (sc, i, item) # cs'"
    by (auto simp: bind_def split: sum.splits)
  from Cons.IH [OF cs'] have len: "length cs' = length items"
    and ih: "\<And>j. j < length items \<Longrightarrow>
        blended cfg fz st q (Suc i + j) (items ! j) = Inr (fst (cs' ! j)) \<and>
        snd (cs' ! j) = (Suc i + j, items ! j)"
    by simp_all
  show ?case
  proof (intro conjI allI impI)
    show "length cs = length (item # items)" using len cs by simp
  next
    fix j assume j: "j < length (item # items)"
    show "blended cfg fz st q (i + j) ((item # items) ! j) = Inr (fst (cs ! j))"
    proof (cases j)
      case 0
      then show ?thesis using sc cs by simp
    next
      case (Suc j')
      then show ?thesis using ih [of j'] j cs by simp
    qed
  next
    fix j assume j: "j < length (item # items)"
    show "snd (cs ! j) = (i + j, (item # items) ! j)"
    proof (cases j)
      case 0
      then show ?thesis using cs by simp
    next
      case (Suc j')
      then show ?thesis using ih [of j'] j cs by simp
    qed
  qed
qed

lemma filter_order:
  assumes "sorted_wrt R (filter P ys)" "a < b" "b < length ys" "P (ys ! a)" "P (ys ! b)"
  shows "R (ys ! a) (ys ! b)"
  using assms
proof (induction ys arbitrary: a b)
  case Nil
  then show ?case by simp
next
  case (Cons y ys)
  obtain b' where b': "b = Suc b'" using Cons.prems(2) by (cases b) auto
  show ?case
  proof (cases a)
    case 0
    have "ys ! b' \<in> set (filter P ys)" using Cons.prems b' by simp
    then show ?thesis using Cons.prems 0 b' by auto
  next
    case (Suc a')
    have "sorted_wrt R (filter P ys)" using Cons.prems(1) by (auto split: if_splits)
    then show ?thesis using Cons.IH [of a' b'] Cons.prems Suc b' by simp
  qed
qed

lemma sort_desc_before:
  assumes "sorted_wrt (<) (map (fst \<circ> snd) cs)"
  shows "sorted_wrt cand_before (sort_desc cs)"
proof -
  let ?f = "\<lambda>c::candidate. - fst c"
  let ?ys = "sort_desc cs"
  have srt: "sorted (map ?f ?ys)" by (simp add: sort_desc_def)
  have stable: "\<And>k. filter (\<lambda>y. ?f y = k) ?ys = filter (\<lambda>y. ?f y = k) cs"
    by (simp add: sort_desc_def sort_key_stable)
  have inc: "\<And>k. sorted_wrt (\<lambda>c d. fst (snd c) < fst (snd d)) (filter (\<lambda>y. ?f y = k) cs)"
    using assms by (simp add: sorted_wrt_map sorted_wrt_filter)
  show ?thesis
  proof (subst sorted_wrt_iff_nth_less, intro allI impI)
    fix a b assume ab: "a < b" "b < length ?ys"
    have le: "?f (?ys ! a) \<le> ?f (?ys ! b)"
      using srt ab by (simp add: sorted_iff_nth_mono less_imp_le)
    show "cand_before (?ys ! a) (?ys ! b)"
    proof (cases "?f (?ys ! a) = ?f (?ys ! b)")
      case True
      have "sorted_wrt (\<lambda>c d. fst (snd c) < fst (snd d)) (filter (\<lambda>y. ?f y = ?f (?ys ! b)) ?ys)"
        by (subst stable) (rule inc)
      then have "fst (snd (?ys ! a)) < fst (snd (?ys ! b))"
        using filter_order [of _ "\<lambda>y. ?f y = ?f (?ys ! b)" ?ys a b] ab True by blast
      then show ?thesis using True by (simp add: cand_before_def)
    next
      case False
      with le show ?thesis by (simp add: cand_before_def)
    qed
  qed
qed

lemma cands_loop_member:
  assumes "cands_loop cfg fz st q 0 items = Inr cs" "c \<in> set cs"
  shows "fst (snd c) < length items \<and> snd (snd c) = items ! fst (snd c)
         \<and> blended cfg fz st q (fst (snd c)) (snd (snd c)) = Inr (fst c)"
proof -
  from cands_loop_nth [OF assms(1)] have len: "length cs = length items"
    and nth: "\<And>j. j < length items \<Longrightarrow>
        blended cfg fz st q j (items ! j) = Inr (fst (cs ! j)) \<and> snd (cs ! j) = (j, items ! j)"
    by simp_all
  from assms(2) obtain j where j: "j < length cs" "c = cs ! j" by (auto simp: in_set_conv_nth)
  from nth [of j] j len show ?thesis by simp
qed

lemma cands_loop_every_row:
  assumes "cands_loop cfg fz st q 0 items = Inr cs" "i < length items"
    "blended cfg fz st q i (items ! i) = Inr v"
  shows "(v, i, items ! i) \<in> set cs"
proof -
  from cands_loop_nth [OF assms(1)] assms(2) have len: "length cs = length items"
    and nth: "blended cfg fz st q i (items ! i) = Inr (fst (cs ! i))"
      "snd (cs ! i) = (i, items ! i)"
    by simp_all
  from nth(1) assms(3) have "fst (cs ! i) = v" by simp
  with nth(2) have "cs ! i = (v, i, items ! i)" by (simp add: prod_eq_iff)
  moreover have "cs ! i \<in> set cs" using len assms(2) by simp
  ultimately show ?thesis by simp
qed

lemma take_or_after:
  assumes "sorted_wrt R xs" "x \<in> set xs"
  shows "x \<in> set (take k xs) \<or> (\<forall>c \<in> set (take k xs). R c x)"
proof -
  have "sorted_wrt R (take k xs @ drop k xs)" using assms(1) by simp
  then have ord: "\<forall>a \<in> set (take k xs). \<forall>b \<in> set (drop k xs). R a b"
    by (simp only: sorted_wrt_append) blast
  have "x \<in> set (take k xs) \<or> x \<in> set (drop k xs)"
    using assms(2) by (metis Un_iff append_take_drop_id set_append)
  with ord show ?thesis by blast
qed

lemma get_row_candidates_props:
  assumes "get_row_candidates cfg fz st q 12 = Inr cs"
  shows "length cs = min 12 (length (KB_ROWS st))"
    and "sorted_wrt cand_before cs"
    and "\<forall>c \<in> set cs. fst (snd c) < length (KB_ROWS st)
           \<and> snd (snd c) = KB_ROWS st ! fst (snd c)
           \<and> blended cfg fz st q (fst (snd c)) (snd (snd c)) = Inr (fst c)"
    and "\<forall>i < length (KB_ROWS st). \<forall>v. blended cfg fz st q i (KB_ROWS st ! i) = Inr v \<longrightarrow>
           (v, i, KB_ROWS st ! i) \<in> set cs \<or> (\<forall>c \<in> set cs. cand_before c (v, i, KB_ROWS st ! i))"
proof -
  from assms obtain cands where
    cands: "cands_loop cfg fz st q 0 (KB_ROWS st) = Inr cands"
    and cs: "cs = take 12 (sort_desc cands)"
    by (auto simp: get_row_candidates_def bind_def py_take_def split: sum.splits)
  have len: "length cands = length (KB_ROWS st)" using cands_loop_nth [OF cands] by simp
  have "map (fst \<circ> snd) cands = [0 ..< length (KB_ROWS st)]"
    using cands_loop_shape [OF cands] by simp
  then have "sorted_wrt (<) (map (fst \<circ> snd) cands)" by (simp only: sorted_wrt_upt)
  then have all: "sorted_wrt cand_before (sort_desc cands)" by (rule sort_desc_before)
  have same: "set (sort_desc cands) = set cands" by (simp add: sort_desc_def)
  show "length cs = min 12 (length (KB_ROWS st))"
    unfolding cs using len by (simp add: sort_desc_def)
  show "sorted_wrt cand_before cs"
    unfolding cs using all by (rule sorted_wrt_take)
  have sub: "set cs \<subseteq> set cands"
    unfolding cs using set_take_subset [of 12 "sort_desc cands"] same by simp
  show "\<forall>c \<in> set cs. fst (snd c) < length (KB_ROWS st)
           \<and> snd (snd c) = KB_ROWS st ! fst (snd c)
           \<and> blended cfg fz st q (fst (snd c)) (snd (snd c)) = Inr (fst c)"
    using cands_loop_member [OF cands] sub by blast
  show "\<forall>i < length (KB_ROWS st). \<forall>v. blended cfg fz st q i (KB_ROWS st ! i) = Inr v \<longrightarrow>
           (v, i, KB_ROWS st ! i) \<in> set cs \<or> (\<forall>c \<in> set cs. cand_before c (v, i, KB_ROWS st ! i))"
  proof (intro allI impI)
    fix i v assume i: "i < length (KB_ROWS st)"
      and v: "blended cfg fz st q i (KB_ROWS st ! i) = Inr v"
    have "(v, i, KB_ROWS st ! i) \<in> set (sort_desc cands)"
      using cands_loop_every_row [OF cands i v] same by simp
    from take_or_after [OF all this, of 12]
    show "(v, i, KB_ROWS st ! i) \<in> set cs \<or> (\<forall>c \<in> set cs. cand_before c (v, i, KB_ROWS st ! i))"
      unfolding cs .
  qed
qed

lemma get_row_candidates_total:
  assumes "kb_built st"
  shows "\<exists>cs. get_row_candidates cfg fz st q k = Inr cs"
proof -
  obtain cands where "cands_loop cfg fz st q 0 (KB_ROWS st) = Inr cands"
    using cands_loop_total [OF assms] by blast
  then show ?thesis by (simp add: get_row_candidates_def bind_def)
qed

text \<open>
  Claim C10. For every query, \<open>get_row_candidates\<close> with \<open>top_k = 12\<close> returns on an index
  that \<^verbatim>\<open>preload_knowledge\<close> has built, and what it returns is the first 12 rows of
  \<^verbatim>\<open>KB_ROWS\<close> in descending order of blended score: 12 candidates, or all the rows when
  there are fewer; each candidate a row of \<^verbatim>\<open>KB_ROWS\<close> with its index and with the blended
  score the loop computes for that row; the candidates in descending order of that score,
  any two of equal score in ascending order of their index, which is the order of row
  extraction; and every row of \<^verbatim>\<open>KB_ROWS\<close> either among the candidates or after each of
  them in that order.
\<close>

theorem get_row_candidates_sorted:
  "(kb_built st \<longrightarrow> (\<exists>cs. get_row_candidates cfg fz st q 12 = Inr cs))
   \<and> (\<forall>cs. get_row_candidates cfg fz st q 12 = Inr cs \<longrightarrow>
         length cs = min 12 (length (KB_ROWS st))
         \<and> sorted_wrt cand_before cs
         \<and> (\<forall>c \<in> set cs. fst (snd c) < length (KB_ROWS st)
               \<and> snd (snd c) = KB_ROWS st ! fst (snd c)
               \<and> blended cfg fz st q (fst (snd c)) (snd (snd c)) = Inr (fst c))
         \<and> (\<forall>i < length (KB_ROWS st). \<forall>v.
               blended cfg fz st q i (KB_ROWS st ! i) = Inr v \<longrightarrow>
               (v, i, KB_ROWS st ! i) \<in> set cs
               \<or> (\<forall>c \<in> set cs. cand_before c (v, i, KB_ROWS st ! i))))"
proof (intro conjI impI allI)
  assume "kb_built st"
  then show "\<exists>cs. get_row_candidates cfg fz st q 12 = Inr cs"
    by (rule get_row_candidates_total)
next
  fix cs assume r: "get_row_candidates cfg fz st q 12 = Inr cs"
  show "length cs = min 12 (length (KB_ROWS st))" by (rule get_row_candidates_props(1) [OF r])
  show "sorted_wrt cand_before cs" by (rule get_row_candidates_props(2) [OF r])
  show "\<forall>c \<in> set cs. fst (snd c) < length (KB_ROWS st)
               \<and> snd (snd c) = KB_ROWS st ! fst (snd c)
               \<and> blended cfg fz st q (fst (snd c)) (snd (snd c)) = Inr (fst c)"
    by (rule get_row_candidates_props(3) [OF r])
  fix i v assume "i < length (KB_ROWS st)" "blended cfg fz st q i (KB_ROWS st ! i) = Inr v"
  with get_row_candidates_props(4) [OF r]
  show "(v, i, KB_ROWS st ! i) \<in> set cs \<or> (\<forall>c \<in> set cs. cand_before c (v, i, KB_ROWS st ! i))"
    by blast
qed

lemma blended_three:
  "blended default_config fuzz_all_distinct st_three ''zzz'' 0 item_l = Inr 0"
  "blended default_config fuzz_all_distinct st_three ''zzz'' 1 item_a = Inr (234/1000)"
  "blended default_config fuzz_all_distinct st_three ''zzz'' 2 item_b = Inr (234/1000)"
proof -
  have sl: "score_row_against_query default_config fuzz_all_distinct row_login ''zzz''
      ''FAQ'' = 0"
    by code_simp
  have sa: "score_row_against_query default_config fuzz_all_distinct row_ora ''zzz''
      ''Error Catalog'' = 26/100"
    by code_simp
  have tk: "tokenize ''zzz'' = [''zzz'']" by code_simp
  have nl: "set [''zzz''] \<inter> set toks_login = {}" by (simp add: toks_login_def)
  have nc: "set [''zzz''] \<inter> set toks_ora = {}" by (simp add: toks_ora_def)
  let ?bm = "BM25 [toks_login, toks_ora, toks_ora]"
  have ix: "py_index (bm_doc_len ?bm) 0 = Inr (length toks_login)"
    "py_index (bm_doc_len ?bm) 1 = Inr (length toks_ora)"
    "py_index (bm_doc_len ?bm) 2 = Inr (length toks_ora)"
    "py_index (bm_docs_tokens ?bm) 0 = Inr toks_login"
    "py_index (bm_docs_tokens ?bm) 1 = Inr toks_ora"
    "py_index (bm_docs_tokens ?bm) 2 = Inr toks_ora"
    by (simp_all add: py_index_def BM25_def BM25_init_def)
  have s0: "score ?bm [''zzz''] 0 = Inr 0"
    using ix score_loop_no_common [OF nl] by (simp add: score_def bind_def Let_def)
  have s1: "score ?bm [''zzz''] 1 = Inr 0" and s2: "score ?bm [''zzz''] 2 = Inr 0"
    using ix score_loop_no_common [OF nc] by (simp_all add: score_def bind_def Let_def)
  show "blended default_config fuzz_all_distinct st_three ''zzz'' 0 item_l = Inr 0"
    using sl tk s0
    by (simp add: blended_def bind_def Let_def st_three_def item_l_def fuzz_all_distinct_def)
  show "blended default_config fuzz_all_distinct st_three ''zzz'' 1 item_a = Inr (234/1000)"
    using sa tk s1
    by (simp add: blended_def bind_def Let_def st_three_def item_a_def fuzz_all_distinct_def)
  show "blended default_config fuzz_all_distinct st_three ''zzz'' 2 item_b = Inr (234/1000)"
    using sa tk s2
    by (simp add: blended_def bind_def Let_def st_three_def item_b_def fuzz_all_distinct_def)
qed

lemma candidates_three:
  "get_row_candidates default_config fuzz_all_distinct st_three ''zzz'' 12
     = Inr [(234/1000, 1, item_a), (234/1000, 2, item_b), (0, 0, item_l)]"
proof -
  have "cands_loop default_config fuzz_all_distinct st_three ''zzz'' 0 (KB_ROWS st_three)
      = Inr [(0, 0, item_l), (234/1000, 1, item_a), (234/1000, 2, item_b)]"
    using blended_three by (simp add: st_three_def bind_def numeral_2_eq_2)
  then show ?thesis
    by (simp add: get_row_candidates_def bind_def sort_desc_def py_take_def)
qed

lemma kb_built_three: "kb_built st_three"
  by (simp add: kb_built_def st_three_def)

theorem get_row_candidates_sorted_witness:
  "kb_built st_three
   \<and> get_row_candidates default_config fuzz_all_distinct st_three ''zzz'' 12
       = Inr [(234/1000, 1, item_a), (234/1000, 2, item_b), (0, 0, item_l)]
   \<and> length [(234/1000 :: real, 1 :: nat, item_a), (234/1000, 2, item_b), (0, 0, item_l)]
       = min 12 (length (KB_ROWS st_three))
   \<and> sorted_wrt cand_before [(234/1000, 1, item_a), (234/1000, 2, item_b), (0, 0, item_l)]
   \<and> blended default_config fuzz_all_distinct st_three ''zzz'' 1 (KB_ROWS st_three ! 1)
       = Inr (234/1000)
   \<and> blended default_config fuzz_all_distinct st_three ''zzz'' 0 (KB_ROWS st_three ! 0)
       = Inr 0"
proof -
  note t = get_row_candidates_sorted [of st_three default_config fuzz_all_distinct "''zzz''",
      THEN conjunct2, rule_format, OF candidates_three]
  have l: "length [(234/1000 :: real, 1 :: nat, item_a), (234/1000, 2, item_b), (0, 0, item_l)]
       = min 12 (length (KB_ROWS st_three))"
    using t by (elim conjE)
  have s: "sorted_wrt cand_before [(234/1000, 1, item_a), (234/1000, 2, item_b), (0, 0, item_l)]"
    using t by (elim conjE)
  have b: "\<forall>c \<in> set [(234/1000 :: real, 1 :: nat, item_a), (234/1000, 2, item_b), (0, 0, item_l)].
      fst (snd c) < length (KB_ROWS st_three)
      \<and> snd (snd c) = KB_ROWS st_three ! fst (snd c)
      \<and> blended default_config fuzz_all_distinct st_three ''zzz'' (fst (snd c)) (snd (snd c))
          = Inr (fst c)"
    using t by (elim conjE)
  from b have b1: "blended default_config fuzz_all_distinct st_three ''zzz'' 1
      (KB_ROWS st_three ! 1) = Inr (234/1000)"
    by simp
  from b have b0: "blended default_config fuzz_all_distinct st_three ''zzz'' 0
      (KB_ROWS st_three ! 0) = Inr 0"
    by simp
  from kb_built_three candidates_three l s b1 b0 show ?thesis by (intro conjI)
qed

section \<open>Degenerate inputs\<close>

text \<open>
  Claim C8, as stated: for an empty corpus, an empty query or zero-length documents,
  \<open>score\<close> and \<open>score_row_against_query\<close> return 0.0 rather than raising. The row scorer
  adds its bias terms whatever the query is: for the empty query and a row with a remedy
  it returns 0.08 where every similarity is 0, and at least that for any similarities
  in range. A BM25 index over no document has no document to score: every index raises.
\<close>

theorem degenerate_counterexample:
  "score_row_against_query default_config fuzz_all_distinct row_ora [] [] = 8/100
   \<and> score (BM25 []) [] 0 = Inl IndexError"
proof -
  have "score_row_against_query default_config fuzz_all_distinct row_ora [] [] = 8/100"
    by code_simp
  then show ?thesis using score_empty_corpus [of "[]" 0] by simp
qed

text \<open>
  Claim C8, amended. On a non-empty corpus indexed with the default parameters,
  \<open>score\<close> returns a number for every query and every document index of the corpus,
  without raising: both of its divisions have a non-zero divisor; it returns 0 for
  the empty query and for a zero-length document. \<open>score_row_against_query\<close> has no
  division by a computed value and returns a number between 0 and 1, for the empty query
  too. On an index built over no rows no BM25 index exists and \<open>get_row_candidates\<close>
  returns no candidate.
\<close>

theorem degenerate_scoring:
  "(\<forall>i q. i < length docs \<longrightarrow> (\<exists>v. score (BM25 docs) q (int i) = Inr v))
   \<and> (\<forall>i. i < length docs \<longrightarrow> score (BM25 docs) [] (int i) = Inr 0)
   \<and> (\<forall>i q. i < length docs \<and> docs ! i = [] \<longrightarrow> score (BM25 docs) q (int i) = Inr 0)
   \<and> 0 \<le> score_row_against_query cfg fz r query title
   \<and> score_row_against_query cfg fz r query title \<le> 1
   \<and> (kb_built st \<and> KB_ROWS st = [] \<longrightarrow> get_row_candidates cfg fz st query 12 = Inr [])"
proof (intro conjI allI impI)
  fix i q assume "i < length docs"
  then show "\<exists>v. score (BM25 docs) q (int i) = Inr v" by (rule score_total)
next
  fix i assume "i < length docs"
  then show "score (BM25 docs) [] (int i) = Inr 0"
    unfolding BM25_def by (intro score_empty) simp_all
next
  fix i q assume "i < length docs \<and> docs ! i = []"
  then show "score (BM25 docs) q (int i) = Inr 0" using score_empty_doc by blast
next
  show "0 \<le> score_row_against_query cfg fz r query title"
    using score_in_unit by blast
  show "score_row_against_query cfg fz r query title \<le> 1"
    using score_in_unit by blast
next
  assume "kb_built st \<and> KB_ROWS st = []"
  then show "get_row_candidates cfg fz st query 12 = Inr []"
    by (simp add: get_row_candidates_def bind_def sort_desc_def py_take_def)
qed

theorem degenerate_scoring_witness:
  "(\<exists>v. score (BM25 [[''error''], []]) [''error''] (int 0) = Inr v)
   \<and> score (BM25 [[''error''], []]) [] (int 0) = Inr 0
   \<and> score (BM25 [[''error''], []]) [''error''] (int 1) = Inr 0"
proof -
  note d = degenerate_scoring [of "[[''error''], []]"]
  have a: "\<exists>v. score (BM25 [[''error''], []]) [''error''] (int 0) = Inr v"
    using d [THEN conjunct1, rule_format, of 0] by simp
  have b: "score (BM25 [[''error''], []]) [] (int 0) = Inr 0"
    using d [THEN conjunct2, THEN conjunct1, rule_format, of 0] by simp
  have c: "score (BM25 [[''error''], []]) [''error''] (int 1) = Inr 0"
    using d [THEN conjunct2, THEN conjunct2, THEN conjunct1, rule_format, of 1] by simp
  from a b c show ?thesis by (intro conjI)
qed

section \<open>Properties of the formatter and the sanitizer\<close>









text \<open>
  Claim C4: the output of \<open>sanitize_output\<close> holds only the first numbered list. The
  source splits the text before every numbered line and keeps, after the first block,
  the blocks that start with \<^verbatim>\<open>1.\<close> or \<^verbatim>\<open>Notes:\<close>: of two numbered lists it keeps
  the first step of each, and of a single list under a heading its first step only.
\<close>

theorem sanitize_output_two_lists:
  "sanitize_output default_config
     (''1. a'' @ [NL] @ ''2. b'' @ [NL] @ ''1. c'' @ [NL] @ ''2. d'') = ''1. a'' @ [NL] @ ''1. c''
   \<and> sanitize_output default_config
     (''Do this:'' @ [NL] @ ''1. Open A'' @ [NL] @ ''2. Click B'' @ [NL] @ ''3. Save'')
       = ''Do this:'' @ [NL] @ ''1. Open A''"
  by code_simp

section \<open>Properties of the table extraction\<close>

lemma table_row_error_length:
  assumes "table_row headers tr = Some r"
  shows "3 \<le> length (row_error r)"
  using assms by (auto simp: table_row_def Let_def split: if_splits)

lemma extract_rows_error_length:
  assumes "r \<in> set (extract_table_rows_from_html soup)"
  shows "3 \<le> length (row_error r)"
  using assms table_row_error_length
  by (auto simp: extract_table_rows_from_html_def List.map_filter_def)

text \<open>
  Claim C9: a table with the header row Error, Cause, Remedy and one data row yields
  exactly one row. The source reads the headers from the first row when the table has no
  \<^verbatim>\<open>th\<close> cell in a \<^verbatim>\<open>thead\<close>, and then loops over every row that has a \<^verbatim>\<open>td\<close> cell, the
  first included: a header row of \<^verbatim>\<open>td\<close> cells comes back as a row of its own, before the
  data row. With the header in \<^verbatim>\<open>th\<close> cells the same table yields the data row alone.
\<close>

theorem extract_table_rows_td_header:
  "extract_table_rows_from_html page_td = [row_header, row_ora]
   \<and> extract_table_rows_from_html page_th = [row_ora]"
  by code_simp

section \<open>Properties of the answer from the knowledge base\<close>































end
